theory Spec2Isabelle
  imports Main "HOL-Library.Word"
begin

unbundle bit_operations_syntax

section \<open>Values exchanged with the outside world\<close>

text \<open>
  Go's \<^verbatim>\<open>error\<close> values. \<open>UnsupportedDeviceType\<close> is the one error that
  \<^verbatim>\<open>main.go\<close> builds itself (\<^verbatim>\<open>fmt.Errorf("unsupported device type... aborting")\<close>,
  the specification's \<^verbatim>\<open>NotADevice\<close>); \<open>Err msg\<close> stands for every error handed
  back by a system call, the Docker client or the cgroup package.
\<close>

datatype error = UnsupportedDeviceType | Err string

text \<open>
  The ways the process stops: \<^verbatim>\<open>panic(err)\<close>, \<^verbatim>\<open>log.Fatal(err)\<close>, and the run-time
  panics of a method call on a nil interface, of \<^verbatim>\<open>info.IsDir()\<close> on a nil
  \<^verbatim>\<open>FileInfo\<close> and of \<^verbatim>\<open>container.ID[:10]\<close> on a shorter string.
\<close>

datatype abort = Panic error | LogFatal error | NilInterface | NilFileInfo | SliceBounds

text \<open>\<^verbatim>\<open>cgroup.DeviceRule\<close> with the fields the composite literal of \<^verbatim>\<open>applyDeviceRules\<close> sets;
  a \<^verbatim>\<open>*int64\<close> is an \<open>int option\<close>.\<close>

record DeviceRule =
  Access :: string
  Major :: "int option"
  Minor :: "int option"
  Type :: string
  Allow :: bool

datatype CgroupVersion = V1 | V2

text \<open>
  What a run does to the outside is recorded as a trace: one event for each call that
  leaves the program (with its arguments) and one for each log statement.
\<close>

datatype event =
    Call_ContainerList
  | Call_ContainerInspect string
  | Call_GetDeviceCGroupVersion string int
  | Call_New CgroupVersion
  | Call_GetDeviceCGroupMountPath string int
  | Call_os_Stat string
  | Call_Walk string
  | Call_unix_Stat string
  | Call_AddDeviceRules string "DeviceRule list"
  | Log_err error
  | Log_neither_char_nor_block
  | Log_found_device string string int int
  | Log_cgroup_version int CgroupVersion
  | Log_checking_mounts int
  | Log_requested_mount string int string string
  | Log_not_a_device string
  | Log_cgroup_path int string
  | Log_adding_rule int string
  | Log_checking_existing string string

section \<open>The file system\<close>

text \<open>\<^verbatim>\<open>unix.Stat_t\<close> (linux/amd64): the two fields \<^verbatim>\<open>getDeviceInfo\<close> reads.\<close>

record Stat_t =
  Mode :: "32 word"
  Rdev :: "64 word"

record FileInfo =
  IsDir :: bool

text \<open>
  The directory tree that \<^verbatim>\<open>filepath.Walk\<close> sees below a path through \<^verbatim>\<open>os.Lstat\<close> and
  \<^verbatim>\<open>readDirNames\<close>: a non-directory, a directory with its entries in the (sorted) order
  \<^verbatim>\<open>readDirNames\<close> returns them, a directory that cannot be read, and a name whose
  \<^verbatim>\<open>Lstat\<close> fails.
\<close>

datatype ftree =
    File
  | Directory "(string \<times> ftree) list"
  | Unreadable error
  | NoStat error

record filesystem =
  unix_Stat :: "string \<Rightarrow> error + Stat_t"
  lstat_tree :: "string \<Rightarrow> ftree"

definition S_IFMT :: "32 word" where "S_IFMT = 0xf000"
definition S_IFBLK :: "32 word" where "S_IFBLK = 0x6000"
definition S_IFCHR :: "32 word" where "S_IFCHR = 0x2000"
definition S_IFDIR :: "32 word" where "S_IFDIR = 0x4000"
definition S_IFIFO :: "32 word" where "S_IFIFO = 0x1000"
definition S_IFLNK :: "32 word" where "S_IFLNK = 0xa000"
definition S_IFREG :: "32 word" where "S_IFREG = 0x8000"
definition S_IFSOCK :: "32 word" where "S_IFSOCK = 0xc000"

text \<open>\<^verbatim>\<open>unix.Major\<close>, \<^verbatim>\<open>unix.Minor\<close> and \<^verbatim>\<open>unix.Mkdev\<close> of golang.org/x/sys/unix (Linux).\<close>

definition unix_Major :: "64 word \<Rightarrow> 32 word" where
  "unix_Major dev =
     ucast (drop_bit 8 (dev AND 0x00000000000fff00)) OR
     ucast (drop_bit 32 (dev AND 0xfffff00000000000))"

definition unix_Minor :: "64 word \<Rightarrow> 32 word" where
  "unix_Minor dev =
     ucast (drop_bit 0 (dev AND 0x00000000000000ff)) OR
     ucast (drop_bit 12 (dev AND 0x00000ffffff00000))"

definition unix_Mkdev :: "32 word \<Rightarrow> 32 word \<Rightarrow> 64 word" where
  "unix_Mkdev major minor =
     push_bit 8 (ucast major AND 0x00000fff) OR
     push_bit 32 (ucast major AND 0xfffff000) OR
     push_bit 0 (ucast minor AND 0x000000ff) OR
     push_bit 12 (ucast minor AND 0xffffff00)"

text \<open>\<^verbatim>\<open>os.Stat\<close> is the same system call as \<^verbatim>\<open>unix.Stat\<close>; \<^verbatim>\<open>IsDir\<close> reads the type bits.\<close>

definition os_Stat :: "filesystem \<Rightarrow> string \<Rightarrow> error + FileInfo" where
  "os_Stat fsys name =
     (case unix_Stat fsys name of
        Inl err \<Rightarrow> Inl err
      | Inr stat \<Rightarrow> Inr \<lparr>IsDir = (Mode stat AND S_IFMT = S_IFDIR)\<rparr>)"

section \<open>Strings and paths\<close>

definition HasPrefix :: "string \<Rightarrow> string \<Rightarrow> bool" where
  "HasPrefix s pre = (take (length pre) s = pre)"

fun split_on :: "char \<Rightarrow> string \<Rightarrow> string list" where
  "split_on c [] = [[]]"
| "split_on c (x # xs) =
     (if x = c then [] # split_on c xs
      else (case split_on c xs of [] \<Rightarrow> [[x]] | w # ws \<Rightarrow> (x # w) # ws))"

fun join_with :: "string \<Rightarrow> string list \<Rightarrow> string" where
  "join_with sep [] = []"
| "join_with sep [x] = x"
| "join_with sep (x # y # ys) = x @ sep @ join_with sep (y # ys)"

text \<open>
  \<^verbatim>\<open>path.Clean\<close>, element by element: empty and \<^verbatim>\<open>.\<close> elements go, a \<^verbatim>\<open>..\<close> removes the
  element before it, is dropped at the root of a rooted path and is kept at the front
  of a relative one. The elements kept so far are held newest first.
\<close>

definition clean_step :: "bool \<Rightarrow> string list \<Rightarrow> string \<Rightarrow> string list" where
  "clean_step rooted out el =
     (if el = [] \<or> el = ''.'' then out
      else if el = ''..'' then
        (case out of
           [] \<Rightarrow> (if rooted then [] else [''..''])
         | newest # below \<Rightarrow> (if newest = ''..'' then ''..'' # out else below))
      else el # out)"

definition path_Clean :: "string \<Rightarrow> string" where
  "path_Clean p =
     (if p = [] then ''.''
      else
        (let rooted = (hd p = CHR ''/'');
             out = foldl (clean_step rooted) [] (split_on (CHR ''/'') p);
             res = (if rooted then ''/'' else []) @ join_with ''/'' (rev out)
         in if res = [] then ''.'' else res))"

text \<open>\<^verbatim>\<open>path.Join\<close> (and \<^verbatim>\<open>filepath.Join\<close> on Linux): the non-empty elements, joined by
  slashes, cleaned; the empty string when there is none.\<close>

definition path_Join :: "string list \<Rightarrow> string" where
  "path_Join elem =
     (let ne = filter (\<lambda>e. e \<noteq> []) elem
      in if ne = [] then [] else path_Clean (join_with ''/'' ne))"

definition rootPath :: string where
  "rootPath = ''/host''"

section \<open>The cgroup package and the Docker client, as main.go uses them\<close>

text \<open>
  \<^verbatim>\<open>cgroup.Interface\<close>: a Go interface is a record of its two methods. \<open>'k\<close> is the
  state the backend writes to (the kernel's cgroup state and the backend's own records).
  \<^verbatim>\<open>GetDeviceCGroupMountPath\<close> returns \<^verbatim>\<open>(cgroupPath, sysfsPath, err)\<close>.
\<close>

record 'k Interface =
  GetDeviceCGroupMountPath :: "string \<Rightarrow> int \<Rightarrow> error + string \<times> string"
  AddDeviceRules :: "string \<Rightarrow> DeviceRule list \<Rightarrow> 'k \<Rightarrow> error option \<times> 'k"

record MountPoint =
  Source :: string
  Destination :: string

text \<open>\<^verbatim>\<open>types.ContainerJSON\<close>: \<^verbatim>\<open>info.State.Pid\<close> and \<^verbatim>\<open>info.Mounts\<close>. A successful inspection
  is taken to carry its \<^verbatim>\<open>State\<close>, as the Docker API returns it.\<close>

record ContainerJSON =
  Pid :: int
  Mounts :: "MountPoint list"

record Container =
  ID :: string
  Image :: string

text \<open>
  Everything the program reaches through \<^verbatim>\<open>cli\<close>, the cgroup package and the file
  system. \<^verbatim>\<open>cgroup.New\<close> returns a backend (\<open>None\<close> is the nil interface) and an error,
  independently, as a Go function with two results does.
\<close>

record 'k world =
  ContainerList :: "error + Container list"
  ContainerInspect :: "string \<Rightarrow> error + ContainerJSON"
  GetDeviceCGroupVersion :: "string \<Rightarrow> int \<Rightarrow> CgroupVersion \<times> error option"
  New :: "CgroupVersion \<Rightarrow> 'k Interface option \<times> error option"
  fs :: filesystem

section \<open>main.go\<close>

text \<open>The parameter \<^verbatim>\<open>id\<close> of the source is written \<open>cid\<close> throughout.\<close>

definition getDeviceInfo ::
  "filesystem \<Rightarrow> string \<Rightarrow> (string \<times> int \<times> int \<times> error option) \<times> event list" where
  "getDeviceInfo fsys devicePath =
     (case unix_Stat fsys devicePath of
        Inl err \<Rightarrow>
          (('''', -1, -1, Some err), [Call_unix_Stat devicePath, Log_err err])
      | Inr stat \<Rightarrow>
          (case (if Mode stat AND S_IFMT = S_IFBLK then Some ''b''
                 else if Mode stat AND S_IFMT = S_IFCHR then Some ''c''
                 else None) of
             None \<Rightarrow>
               (('''', -1, -1, Some UnsupportedDeviceType),
                [Call_unix_Stat devicePath, Log_neither_char_nor_block])
           | Some deviceType \<Rightarrow>
               (let major = uint (unix_Major (Rdev stat));
                    minor = uint (unix_Minor (Rdev stat))
                in ((deviceType, major, minor, None),
                    [Call_unix_Stat devicePath,
                     Log_found_device devicePath deviceType major minor]))))"

definition applyDeviceRules ::
  "filesystem \<Rightarrow> 'k Interface \<Rightarrow> string \<Rightarrow> string \<Rightarrow> int \<Rightarrow> 'k
     \<Rightarrow> error option \<times> 'k \<times> event list" where
  "applyDeviceRules fsys api mountPath cgroupPath pid k =
     (case getDeviceInfo fsys mountPath of
        ((deviceType, major, minor, Some err), ev) \<Rightarrow> (Some err, k, ev @ [Log_err err])
      | ((deviceType, major, minor, None), ev) \<Rightarrow>
          (let rules = [\<lparr>Access = ''rwm'', Major = Some major, Minor = Some minor,
                          Type = deviceType, Allow = True\<rparr>];
               ev' = ev @ [Log_adding_rule pid cgroupPath, Call_AddDeviceRules cgroupPath rules]
           in case AddDeviceRules api cgroupPath rules k of
                (Some err, k') \<Rightarrow> (Some err, k', ev' @ [Log_err err])
              | (None, k') \<Rightarrow> (None, k', ev')))"

text \<open>
  \<^verbatim>\<open>filepath.Walk\<close>. \<^verbatim>\<open>walk\<close> calls the function on a non-directory; on a directory it
  reads the names, calls the function with the read error, stops when either error is
  set, and otherwise goes through the names in order, stopping at the first error. A
  name whose \<^verbatim>\<open>Lstat\<close> fails is handed to the function with a nil \<^verbatim>\<open>FileInfo\<close> and the
  error. Errors from the outside are never \<^verbatim>\<open>SkipDir\<close> or \<^verbatim>\<open>SkipAll\<close>, and the function
  passed in below returns no other error, so those two comparisons are always false.
  A result \<open>Inl a\<close> is a panic inside the function, which ends the walk as well.
\<close>

fun walk ::
    "(string \<Rightarrow> FileInfo option \<Rightarrow> error option \<Rightarrow> 's \<Rightarrow> (abort + error option) \<times> 's)
       \<Rightarrow> string \<Rightarrow> ftree \<Rightarrow> 's \<Rightarrow> (abort + error option) \<times> 's"
  and walk_names ::
    "(string \<Rightarrow> FileInfo option \<Rightarrow> error option \<Rightarrow> 's \<Rightarrow> (abort + error option) \<times> 's)
       \<Rightarrow> string \<Rightarrow> (string \<times> ftree) list \<Rightarrow> 's \<Rightarrow> (abort + error option) \<times> 's"
  where
  "walk walkFn path File s = walkFn path (Some \<lparr>IsDir = False\<rparr>) None s"
| "walk walkFn path (NoStat err) s = walkFn path None (Some err) s"
| "walk walkFn path (Unreadable err) s = walkFn path (Some \<lparr>IsDir = True\<rparr>) (Some err) s"
| "walk walkFn path (Directory entries) s =
     (case walkFn path (Some \<lparr>IsDir = True\<rparr>) None s of
        (Inr None, s') \<Rightarrow> walk_names walkFn path entries s'
      | r \<Rightarrow> r)"
| "walk_names walkFn path [] s = (Inr None, s)"
| "walk_names walkFn path ((name, t) # rest) s =
     (case walk walkFn (path_Join [path, name]) t s of
        (Inr None, s') \<Rightarrow> walk_names walkFn path rest s'
      | r \<Rightarrow> r)"

definition Walk ::
  "filesystem \<Rightarrow> string
     \<Rightarrow> (string \<Rightarrow> FileInfo option \<Rightarrow> error option \<Rightarrow> 's \<Rightarrow> (abort + error option) \<times> 's)
     \<Rightarrow> 's \<Rightarrow> (abort + error option) \<times> 's" where
  "Walk fsys root fn s = walk fn root (lstat_tree fsys root) s"

text \<open>The function literal handed to \<^verbatim>\<open>filepath.Walk\<close> (lines 200 to 209); the state is
  the backend's state and the trace so far.\<close>

definition walkFn ::
  "filesystem \<Rightarrow> 'k Interface \<Rightarrow> string \<Rightarrow> int
     \<Rightarrow> string \<Rightarrow> FileInfo option \<Rightarrow> error option \<Rightarrow> 'k \<times> event list
     \<Rightarrow> (abort + error option) \<times> 'k \<times> event list" where
  "walkFn fsys api cgroupPath pid path info err s =
     (case err of
        Some e \<Rightarrow> (Inr (Some e), s)
      | None \<Rightarrow>
          (case info of
             None \<Rightarrow> (Inl NilFileInfo, s)
           | Some i \<Rightarrow>
               if IsDir i then (Inr None, s)
               else
                 (case applyDeviceRules fsys api path cgroupPath pid (fst s) of
                    (Some e, k', ev) \<Rightarrow> (Inr None, k', snd s @ ev @ [Log_err e])
                  | (None, k', ev) \<Rightarrow> (Inr None, k', snd s @ ev))))"

datatype control = Continue | Break | Abort abort

text \<open>The body of the loop over \<^verbatim>\<open>info.Mounts\<close> (lines 172 to 218) for one mount.\<close>

definition processContainer_mount ::
  "'k world \<Rightarrow> string \<Rightarrow> int \<Rightarrow> CgroupVersion \<Rightarrow> MountPoint \<Rightarrow> 'k
     \<Rightarrow> control \<times> 'k \<times> event list" where
  "processContainer_mount w cid pid version mount k =
     (let ev0 = [Log_requested_mount cid pid (Source mount) (Destination mount)] in
      if \<not> HasPrefix (Source mount) ''/dev'' then
        (Continue, k, ev0 @ [Log_not_a_device (Source mount)])
      else
        (case fst (New w version) of
           None \<Rightarrow> (Abort NilInterface, k, ev0 @ [Call_New version])
         | Some api \<Rightarrow>
             (case GetDeviceCGroupMountPath api ''/'' pid of
                Inl err \<Rightarrow>
                  (Break, k,
                   ev0 @ [Call_New version, Call_GetDeviceCGroupMountPath ''/'' pid, Log_err err])
              | Inr (cgroupPath0, sysfsPath) \<Rightarrow>
                  (let cgroupPath = path_Join [rootPath, sysfsPath, cgroupPath0];
                       ev1 = ev0 @ [Call_New version, Call_GetDeviceCGroupMountPath ''/'' pid,
                                    Log_cgroup_path pid cgroupPath, Call_os_Stat (Source mount)]
                   in case os_Stat (fs w) (Source mount) of
                        Inl err \<Rightarrow> (Continue, k, ev1 @ [Log_err err])
                      | Inr fileInfo \<Rightarrow>
                          if IsDir fileInfo then
                            (case Walk (fs w) (Source mount)
                                    (walkFn (fs w) api cgroupPath pid)
                                    (k, ev1 @ [Call_Walk (Source mount)]) of
                               (Inl a, k', ev) \<Rightarrow> (Abort a, k', ev)
                             | (Inr (Some err), k', ev) \<Rightarrow> (Continue, k', ev @ [Log_err err])
                             | (Inr None, k', ev) \<Rightarrow> (Continue, k', ev))
                          else
                            (case applyDeviceRules (fs w) api (Source mount) cgroupPath pid k of
                               (Some err, k', ev) \<Rightarrow> (Continue, k', ev1 @ ev @ [Log_err err])
                             | (None, k', ev) \<Rightarrow> (Continue, k', ev1 @ ev))))))"

text \<open>The loop itself: \<^verbatim>\<open>continue\<close> goes on with the next mount, \<^verbatim>\<open>break\<close> leaves the
  loop, a panic leaves the program.\<close>

fun processContainer_mounts ::
  "'k world \<Rightarrow> string \<Rightarrow> int \<Rightarrow> CgroupVersion \<Rightarrow> MountPoint list \<Rightarrow> 'k
     \<Rightarrow> abort option \<times> 'k \<times> event list" where
  "processContainer_mounts w cid pid version [] k = (None, k, [])"
| "processContainer_mounts w cid pid version (mount # rest) k =
     (case processContainer_mount w cid pid version mount k of
        (Continue, k', ev) \<Rightarrow>
          (case processContainer_mounts w cid pid version rest k' of
             (a, k'', ev') \<Rightarrow> (a, k'', ev @ ev'))
      | (Break, k', ev) \<Rightarrow> (None, k', ev)
      | (Abort a, k', ev) \<Rightarrow> (Some a, k', ev))"

definition processContainer ::
  "'k world \<Rightarrow> string \<Rightarrow> 'k \<Rightarrow> abort option \<times> 'k \<times> event list" where
  "processContainer w cid k =
     (case ContainerInspect w cid of
        Inl err \<Rightarrow> (Some (Panic err), k, [Call_ContainerInspect cid])
      | Inr info \<Rightarrow>
          (let pid = Pid info;
               ev0 = [Call_ContainerInspect cid, Call_GetDeviceCGroupVersion ''/'' pid,
                      Log_cgroup_version pid (fst (GetDeviceCGroupVersion w ''/'' pid))]
           in case GetDeviceCGroupVersion w ''/'' pid of
                (version, Some err) \<Rightarrow> (None, k, ev0 @ [Log_err err])
              | (version, None) \<Rightarrow>
                  (case processContainer_mounts w cid pid version (Mounts info) k of
                     (a, k', ev) \<Rightarrow> (a, k', ev0 @ [Log_checking_mounts pid] @ ev))))"

text \<open>The loop of \<^verbatim>\<open>checkExistingContainers\<close> over the listed containers.\<close>

fun checkExistingContainers_loop ::
  "'k world \<Rightarrow> Container list \<Rightarrow> 'k \<Rightarrow> abort option \<times> 'k \<times> event list" where
  "checkExistingContainers_loop w [] k = (None, k, [])"
| "checkExistingContainers_loop w (container # rest) k =
     (if length (ID container) < 10 then (Some SliceBounds, k, [])
      else
        (case processContainer w (ID container) k of
           (Some a, k', ev) \<Rightarrow>
             (Some a, k', Log_checking_existing (take 10 (ID container)) (Image container) # ev)
         | (None, k', ev) \<Rightarrow>
             (case checkExistingContainers_loop w rest k' of
                (a, k'', ev') \<Rightarrow>
                  (a, k'',
                   Log_checking_existing (take 10 (ID container)) (Image container) # ev @ ev'))))"

definition checkExistingContainers ::
  "'k world \<Rightarrow> 'k \<Rightarrow> abort option \<times> 'k \<times> event list" where
  "checkExistingContainers w k =
     (case ContainerList w of
        Inl err \<Rightarrow> (Some (Panic err), k, [Call_ContainerList])
      | Inr containers \<Rightarrow>
          (case checkExistingContainers_loop w containers k of
             (a, k', ev) \<Rightarrow> (a, k', Call_ContainerList # ev)))"

text \<open>
  \<^verbatim>\<open>listenForMounts\<close>: the loop never ends by itself. Its run is driven by what the two
  channels deliver, in the order \<^verbatim>\<open>select\<close> takes it; given a finite sequence of
  deliveries the function returns \<open>None\<close> when the loop is back at \<^verbatim>\<open>select\<close> waiting
  for more, and \<open>Some a\<close> when the process has stopped.
\<close>

datatype delivery = From_errs error | From_msgs string

fun listenForMounts ::
  "'k world \<Rightarrow> delivery list \<Rightarrow> 'k \<Rightarrow> abort option \<times> 'k \<times> event list" where
  "listenForMounts w [] k = (None, k, [])"
| "listenForMounts w (From_errs err # rest) k = (Some (LogFatal err), k, [Log_err err])"
| "listenForMounts w (From_msgs actor_id # rest) k =
     (case processContainer w actor_id k of
        (Some a, k', ev) \<Rightarrow> (Some a, k', ev)
      | (None, k', ev) \<Rightarrow>
          (case listenForMounts w rest k' of
             (a, k'', ev') \<Rightarrow> (a, k'', ev @ ev')))"

section \<open>The cgroup backends\<close>

text \<open>
  Modelled from the spec: the state behind the package \<^verbatim>\<open>internal/cgroup\<close>, whose code is
  not part of the sources at hand. For every cgroup directory it holds the V1 controller's
  device allow-list (additive and deduplicating, hence a set), the V2 applier's
  process-local record of all rules ever applied to that path, and the rules encoded by
  the filter program currently attached there.
\<close>

record kstate =
  v1_allow :: "string \<Rightarrow> DeviceRule set"
  v2_applied :: "string \<Rightarrow> DeviceRule set"
  v2_program :: "string \<Rightarrow> DeviceRule set"

text \<open>
  Modelled from the spec: \<^verbatim>\<open>AddDeviceRules\<close> of the V1 backend (section 4.4, V1 path), absent
  from the sources. The rules are appended to the allow-list of the cgroup directory; a
  kernel rejection (\<open>reject\<close>, decided by the path and the rules written) is returned as
  the error and leaves the list as it was.
\<close>

definition V1_AddDeviceRules ::
  "(string \<Rightarrow> DeviceRule list \<Rightarrow> error option) \<Rightarrow> string \<Rightarrow> DeviceRule list \<Rightarrow> kstate
     \<Rightarrow> error option \<times> kstate" where
  "V1_AddDeviceRules reject cgroupPath rules k =
     (case reject cgroupPath rules of
        Some err \<Rightarrow> (Some err, k)
      | None \<Rightarrow>
          (None, k\<lparr>v1_allow := (v1_allow k)(cgroupPath := v1_allow k cgroupPath \<union> set rules)\<rparr>))"

text \<open>
  Modelled from the spec: \<^verbatim>\<open>AddDeviceRules\<close> of the V2 backend (section 4.4, V2 path,
  strategy (a)), absent from the sources. The new rules are united with the record kept
  for the cgroup path, and one program encoding the union is attached in place of
  whatever program was attached before; a kernel rejection changes nothing.
\<close>

definition V2_AddDeviceRules ::
  "(string \<Rightarrow> DeviceRule list \<Rightarrow> error option) \<Rightarrow> string \<Rightarrow> DeviceRule list \<Rightarrow> kstate
     \<Rightarrow> error option \<times> kstate" where
  "V2_AddDeviceRules reject cgroupPath rules k =
     (case reject cgroupPath rules of
        Some err \<Rightarrow> (Some err, k)
      | None \<Rightarrow>
          (let union = v2_applied k cgroupPath \<union> set rules
           in (None, k\<lparr>v2_applied := (v2_applied k)(cgroupPath := union),
                        v2_program := (v2_program k)(cgroupPath := union)\<rparr>)))"

text \<open>
  Modelled from the spec: the two variants behind \<^verbatim>\<open>cgroup.Interface\<close> and their selection
  by \<^verbatim>\<open>cgroup.New\<close> (section 9), absent from the sources. The path resolver of each variant
  (section 4.3) reads the process's cgroup membership; it is a parameter here.
\<close>

definition V1Backend ::
  "(string \<Rightarrow> int \<Rightarrow> error + string \<times> string) \<Rightarrow> (string \<Rightarrow> DeviceRule list \<Rightarrow> error option)
     \<Rightarrow> kstate Interface" where
  "V1Backend resolve reject =
     \<lparr>GetDeviceCGroupMountPath = resolve, AddDeviceRules = V1_AddDeviceRules reject\<rparr>"

definition V2Backend ::
  "(string \<Rightarrow> int \<Rightarrow> error + string \<times> string) \<Rightarrow> (string \<Rightarrow> DeviceRule list \<Rightarrow> error option)
     \<Rightarrow> kstate Interface" where
  "V2Backend resolve reject =
     \<lparr>GetDeviceCGroupMountPath = resolve, AddDeviceRules = V2_AddDeviceRules reject\<rparr>"

definition cgroup_New ::
  "(string \<Rightarrow> int \<Rightarrow> error + string \<times> string) \<Rightarrow> (string \<Rightarrow> int \<Rightarrow> error + string \<times> string)
     \<Rightarrow> (string \<Rightarrow> DeviceRule list \<Rightarrow> error option)
     \<Rightarrow> CgroupVersion \<Rightarrow> kstate Interface option \<times> error option" where
  "cgroup_New resolve1 resolve2 reject version =
     (case version of
        V1 \<Rightarrow> (Some (V1Backend resolve1 reject), None)
      | V2 \<Rightarrow> (Some (V2Backend resolve2 reject), None))"

text \<open>
  Modelled from the spec: \<^verbatim>\<open>CgroupTarget\<close> (section 3) and the effective allow-set of a
  target: the V1 allow-list of its directory, or what the program attached to it grants.
\<close>

record CgroupTarget =
  target_version :: CgroupVersion
  target_path :: string
  target_mountRoot :: string

definition allowed_rules :: "kstate \<Rightarrow> CgroupTarget \<Rightarrow> DeviceRule set" where
  "allowed_rules k t =
     (case target_version t of
        V1 \<Rightarrow> v1_allow k (target_path t)
      | V2 \<Rightarrow> v2_program k (target_path t))"



section \<open>A concrete host\<close>

text \<open>
  A small host to run the program on: the device nodes \<^verbatim>\<open>/dev/null\<close> (character 1:3) and
  \<^verbatim>\<open>/dev/sda\<close> (block 8:0), the directory \<^verbatim>\<open>/dev/dri\<close> with a subdirectory and two render
  nodes (character 226:0 and 226:128), and the ordinary directory \<^verbatim>\<open>/devel\<close> with one
  regular file.
\<close>

definition example_stat :: "string \<Rightarrow> error + Stat_t" where
  "example_stat p =
     (if p = ''/dev/null'' then Inr \<lparr>Mode = 0x21b6, Rdev = unix_Mkdev 1 3\<rparr>
      else if p = ''/dev/sda'' then Inr \<lparr>Mode = 0x61b0, Rdev = unix_Mkdev 8 0\<rparr>
      else if p = ''/dev/dri'' then Inr \<lparr>Mode = 0x41ed, Rdev = 0\<rparr>
      else if p = ''/dev/dri/by-path'' then Inr \<lparr>Mode = 0x41ed, Rdev = 0\<rparr>
      else if p = ''/dev/dri/card0'' then Inr \<lparr>Mode = 0x21b0, Rdev = unix_Mkdev 226 0\<rparr>
      else if p = ''/dev/dri/renderD128'' then Inr \<lparr>Mode = 0x21b6, Rdev = unix_Mkdev 226 128\<rparr>
      else if p = ''/devel'' then Inr \<lparr>Mode = 0x41ed, Rdev = 0\<rparr>
      else if p = ''/devel/notes.txt'' then Inr \<lparr>Mode = 0x81a4, Rdev = 0\<rparr>
      else Inl (Err ''no such file or directory''))"

definition example_tree :: "string \<Rightarrow> ftree" where
  "example_tree p =
     (if p = ''/dev/dri'' then
        Directory [(''by-path'', Directory []), (''card0'', File), (''renderD128'', File)]
      else if p = ''/devel'' then Directory [(''notes.txt'', File)]
      else if p = ''/dev/null'' \<or> p = ''/dev/sda'' then File
      else NoStat (Err ''no such file or directory''))"

definition example_fs :: filesystem where
  "example_fs = \<lparr>unix_Stat = example_stat, lstat_tree = example_tree\<rparr>"

text \<open>A path resolver that finds the cgroup of every process, and one that finds none.\<close>

definition resolve_ok :: "string \<Rightarrow> int \<Rightarrow> error + string \<times> string" where
  "resolve_ok root pid = Inr (''/docker/4f0c'', ''/sys/fs/cgroup'')"

definition resolve_fails :: "string \<Rightarrow> int \<Rightarrow> error + string \<times> string" where
  "resolve_fails root pid = Inl (Err ''cgroup directory not found'')"

definition accept_all :: "string \<Rightarrow> DeviceRule list \<Rightarrow> error option" where
  "accept_all cgroupPath rules = None"

text \<open>
  One container is known to the runtime, with process 4242 on the given cgroup version
  and the given mounts; \<^verbatim>\<open>cgroup.New\<close> is the specification's, over the given resolver.
\<close>

definition example_world ::
  "CgroupVersion \<Rightarrow> (string \<Rightarrow> int \<Rightarrow> error + string \<times> string) \<Rightarrow> MountPoint list
     \<Rightarrow> kstate world" where
  "example_world version resolve mounts =
     \<lparr>ContainerList = Inr [\<lparr>ID = ''4f0c3e2a1b9d'', Image = ''rdesktop''\<rparr>],
      ContainerInspect =
        (\<lambda>cid. if cid = ''4f0c3e2a1b9d'' then Inr \<lparr>Pid = 4242, Mounts = mounts\<rparr>
               else Inl (Err ''No such container'')),
      GetDeviceCGroupVersion = (\<lambda>root pid. (version, None)),
      New = cgroup_New resolve resolve accept_all,
      fs = example_fs\<rparr>"

definition empty_kstate :: kstate where
  "empty_kstate = \<lparr>v1_allow = (\<lambda>p. {}), v2_applied = (\<lambda>p. {}), v2_program = (\<lambda>p. {})\<rparr>"





section \<open>Reading a run\<close>

text \<open>The non-directories below a path, in the order \<^verbatim>\<open>filepath.Walk\<close> meets them, with
  the paths it builds for them.\<close>

fun files :: "string \<Rightarrow> ftree \<Rightarrow> string list"
  and files_names :: "string \<Rightarrow> (string \<times> ftree) list \<Rightarrow> string list" where
  "files path File = [path]"
| "files path (Directory entries) = files_names path entries"
| "files path (Unreadable err) = []"
| "files path (NoStat err) = []"
| "files_names path [] = []"
| "files_names path ((name, t) # rest) = files (path_Join [path, name]) t @ files_names path rest"


text \<open>
  The paths handed to the resolve and apply pipeline in a trace: every run of
  \<^verbatim>\<open>applyDeviceRules\<close> starts with the \<^verbatim>\<open>unix.Stat\<close> of \<^verbatim>\<open>getDeviceInfo\<close>, and nothing else
  calls it.
\<close>

definition resolver_calls :: "event list \<Rightarrow> string list" where
  "resolver_calls ev = concat (map (\<lambda>e. case e of Call_unix_Stat p \<Rightarrow> [p] | _ \<Rightarrow> []) ev)"

text \<open>The mount sources the loop over the mounts has looked at in a trace.\<close>

definition examined :: "event list \<Rightarrow> string list" where
  "examined ev =
     concat (map (\<lambda>e. case e of Log_requested_mount c p src dst \<Rightarrow> [src] | _ \<Rightarrow> []) ev)"

text \<open>The calls to \<^verbatim>\<open>AddDeviceRules\<close> in a trace, in order, and their effect on the state
  of a backend.\<close>

definition backend_calls :: "event list \<Rightarrow> (string \<times> DeviceRule list) list" where
  "backend_calls ev =
     concat (map (\<lambda>e. case e of Call_AddDeviceRules p rules \<Rightarrow> [(p, rules)] | _ \<Rightarrow> []) ev)"

definition run_calls :: "'k Interface \<Rightarrow> (string \<times> DeviceRule list) list \<Rightarrow> 'k \<Rightarrow> 'k" where
  "run_calls api calls k = foldl (\<lambda>k' (p, rules). snd (AddDeviceRules api p rules k')) k calls"

text \<open>A backend whose answer (error or none) does not depend on the state it writes to.\<close>

definition state_independent :: "'k Interface \<Rightarrow> bool" where
  "state_independent api =
     (\<forall>p rules k k2. fst (AddDeviceRules api p rules k) = fst (AddDeviceRules api p rules k2))"

text \<open>A path that lies under the device directory: \<^verbatim>\<open>/dev\<close> itself or a path below it.\<close>

definition under_dev :: "string \<Rightarrow> bool" where
  "under_dev p = (p = ''/dev'' \<or> HasPrefix p ''/dev/'')"

text \<open>The rule list \<^verbatim>\<open>applyDeviceRules\<close> builds for a path that resolves to a device.\<close>

definition rule_for :: "filesystem \<Rightarrow> string \<Rightarrow> DeviceRule list \<Rightarrow> bool" where
  "rule_for fsys mountPath rules =
     (case fst (getDeviceInfo fsys mountPath) of
        (deviceType, major, minor, err) \<Rightarrow>
          err = None \<and>
          rules = [\<lparr>Access = ''rwm'', Major = Some major, Minor = Some minor,
                    Type = deviceType, Allow = True\<rparr>])"

text \<open>
  The rule lists a run of the pipeline on \<open>mountPath\<close> has to hand to the backend: the one
  list with the one rule of the resolved device, or none when the path does not resolve.
\<close>

definition resolved_rules :: "filesystem \<Rightarrow> string \<Rightarrow> DeviceRule list list" where
  "resolved_rules fsys mountPath =
     (case fst (getDeviceInfo fsys mountPath) of
        (deviceType, major, minor, None) \<Rightarrow>
          [[\<lparr>Access = ''rwm'', Major = Some major, Minor = Some minor,
              Type = deviceType, Allow = True\<rparr>]]
      | (deviceType, major, minor, Some err) \<Rightarrow> [])"

text \<open>What an event of one run of the pipeline on \<open>mountPath\<close> for \<open>cgroupPath\<close> looks like.\<close>

definition pipeline_event_ok :: "filesystem \<Rightarrow> string \<Rightarrow> string \<Rightarrow> event \<Rightarrow> bool" where
  "pipeline_event_ok fsys cgroupPath mountPath e =
     (case e of
        Call_unix_Stat p \<Rightarrow> p = mountPath
      | Call_AddDeviceRules cg rules \<Rightarrow> cg = cgroupPath \<and> rule_for fsys mountPath rules
      | Log_err err \<Rightarrow> True
      | Log_neither_char_nor_block \<Rightarrow> True
      | Log_found_device p ty major minor \<Rightarrow> p = mountPath
      | Log_adding_rule pid cg \<Rightarrow> cg = cgroupPath
      | _ \<Rightarrow> False)"

text \<open>What an event of the loop body for one mount looks like.\<close>

definition mount_event_ok ::
  "'k world \<Rightarrow> string \<Rightarrow> int \<Rightarrow> CgroupVersion \<Rightarrow> MountPoint \<Rightarrow> event \<Rightarrow> bool" where
  "mount_event_ok w cid pid version mount e =
     (e \<in> {Log_requested_mount cid pid (Source mount) (Destination mount),
            Log_not_a_device (Source mount), Call_New version,
            Call_GetDeviceCGroupMountPath ''/'' pid,
            Call_os_Stat (Source mount), Call_Walk (Source mount)}
      \<or> (case e of Log_err err \<Rightarrow> True | _ \<Rightarrow> False)
      \<or> (case fst (New w version) of
            None \<Rightarrow> False
          | Some api \<Rightarrow>
              (case GetDeviceCGroupMountPath api ''/'' pid of
                 Inl err \<Rightarrow> False
               | Inr (cgroupPath0, sysfsPath) \<Rightarrow>
                   e = Log_cgroup_path pid (path_Join [rootPath, sysfsPath, cgroupPath0])
                   \<or> (\<exists>mp \<in> set (Source mount #
                                    files (Source mount) (lstat_tree (fs w) (Source mount))).
                         pipeline_event_ok (fs w)
                           (path_Join [rootPath, sysfsPath, cgroupPath0]) mp e))))"

section \<open>The device identity resolver\<close>

lemma dev_masks:
  "(0x00000000000fff00 :: 64 word) = push_bit 8 (mask 12)"
  "(0xfffff00000000000 :: 64 word) = push_bit 44 (mask 20)"
  "(0x00000000000000ff :: 64 word) = mask 8"
  "(0x00000ffffff00000 :: 64 word) = push_bit 20 (mask 24)"
  "(0x00000fff :: 64 word) = mask 12"
  "(0xfffff000 :: 64 word) = push_bit 12 (mask 20)"
  "(0xffffff00 :: 64 word) = push_bit 8 (mask 24)"
  by (simp_all add: mask_eq_exp_minus_1)

text \<open>The device number built from a major and a minor gives both back.\<close>

lemma Major_Mkdev: "unix_Major (unix_Mkdev M N) = M"
  unfolding unix_Major_def unix_Mkdev_def dev_masks
  by (rule bit_word_eqI) (auto simp: bit_simps)

lemma Minor_Mkdev: "unix_Minor (unix_Mkdev M N) = N"
  unfolding unix_Minor_def unix_Mkdev_def dev_masks
  by (rule bit_word_eqI) (auto simp: bit_simps)

lemma file_types_distinct:
  "S_IFREG \<noteq> S_IFBLK" "S_IFREG \<noteq> S_IFCHR" "S_IFDIR \<noteq> S_IFBLK" "S_IFDIR \<noteq> S_IFCHR"
  "S_IFLNK \<noteq> S_IFBLK" "S_IFLNK \<noteq> S_IFCHR" "S_IFSOCK \<noteq> S_IFBLK" "S_IFSOCK \<noteq> S_IFCHR"
  "S_IFIFO \<noteq> S_IFBLK" "S_IFIFO \<noteq> S_IFCHR" "S_IFCHR \<noteq> S_IFBLK"
  by (simp_all add: S_IFREG_def S_IFBLK_def S_IFCHR_def S_IFDIR_def S_IFLNK_def
      S_IFSOCK_def S_IFIFO_def)

text \<open>
  Claim C3. When \<^verbatim>\<open>stat\<close> of the path succeeds, \<^verbatim>\<open>getDeviceInfo\<close> returns type \<^verbatim>\<open>c\<close> with the
  major and minor numbers of the metadata for character-device type bits, type \<^verbatim>\<open>b\<close>
  with them for block-device type bits, and the unsupported-device error (the
  specification's \<^verbatim>\<open>NotADevice\<close>) for all other type bits, in particular those of a
  regular file, a directory, a symbolic link, a socket and a FIFO. For a device number
  made of major \<open>M\<close> and minor \<open>N\<close> the numbers returned are \<open>M\<close> and \<open>N\<close>. The metadata is
  what \<^verbatim>\<open>unix.Stat\<close> returns for the path, which follows symbolic links.
\<close>

theorem getDeviceInfo_classifies:
  assumes "unix_Stat fsys p = Inr stat"
  shows "(Mode stat AND S_IFMT = S_IFCHR \<longrightarrow>
            fst (getDeviceInfo fsys p) =
              (''c'', uint (unix_Major (Rdev stat)), uint (unix_Minor (Rdev stat)), None))
       \<and> (Mode stat AND S_IFMT = S_IFBLK \<longrightarrow>
            fst (getDeviceInfo fsys p) =
              (''b'', uint (unix_Major (Rdev stat)), uint (unix_Minor (Rdev stat)), None))
       \<and> (Mode stat AND S_IFMT \<noteq> S_IFCHR \<and> Mode stat AND S_IFMT \<noteq> S_IFBLK \<longrightarrow>
            fst (getDeviceInfo fsys p) = ('''', -1, -1, Some UnsupportedDeviceType))
       \<and> (Mode stat AND S_IFMT \<in> {S_IFREG, S_IFDIR, S_IFLNK, S_IFSOCK, S_IFIFO} \<longrightarrow>
            fst (getDeviceInfo fsys p) = ('''', -1, -1, Some UnsupportedDeviceType))
       \<and> (Rdev stat = unix_Mkdev M N \<longrightarrow>
            uint (unix_Major (Rdev stat)) = uint M \<and> uint (unix_Minor (Rdev stat)) = uint N)"
  using assms file_types_distinct
  by (auto simp: getDeviceInfo_def Let_def Major_Mkdev Minor_Mkdev)

theorem getDeviceInfo_classifies_witness:
  "fst (getDeviceInfo example_fs ''/dev/dri/card0'') = (''c'', 226, 0, None)
   \<and> fst (getDeviceInfo example_fs ''/dev/sda'') = (''b'', 8, 0, None)
   \<and> fst (getDeviceInfo example_fs ''/devel/notes.txt'') = ('''', -1, -1, Some UnsupportedDeviceType)
   \<and> fst (getDeviceInfo example_fs ''/dev/dri'') = ('''', -1, -1, Some UnsupportedDeviceType)"
proof -
  have c: "unix_Stat example_fs ''/dev/dri/card0'' = Inr \<lparr>Mode = 0x21b0, Rdev = unix_Mkdev 226 0\<rparr>"
    and b: "unix_Stat example_fs ''/dev/sda'' = Inr \<lparr>Mode = 0x61b0, Rdev = unix_Mkdev 8 0\<rparr>"
    and r: "unix_Stat example_fs ''/devel/notes.txt'' = Inr \<lparr>Mode = 0x81a4, Rdev = 0\<rparr>"
    and d: "unix_Stat example_fs ''/dev/dri'' = Inr \<lparr>Mode = 0x41ed, Rdev = 0\<rparr>"
    by (simp_all add: example_fs_def example_stat_def)
  show ?thesis
    using getDeviceInfo_classifies [OF c, of 226 0] getDeviceInfo_classifies [OF b, of 8 0]
      getDeviceInfo_classifies [OF r, of 0 0] getDeviceInfo_classifies [OF d, of 0 0]
    by (simp add: S_IFMT_def S_IFCHR_def S_IFBLK_def S_IFREG_def S_IFDIR_def S_IFLNK_def
        S_IFSOCK_def S_IFIFO_def Major_Mkdev Minor_Mkdev)
qed

section \<open>Walking a directory tree\<close>

text \<open>Induction over a tree and its lists of entries together.\<close>

lemma ftree_list_induct [case_names File Directory Unreadable NoStat Nil Cons]:
  assumes "P File"
    and "\<And>es. Q es \<Longrightarrow> P (Directory es)"
    and "\<And>e. P (Unreadable e)"
    and "\<And>e. P (NoStat e)"
    and "Q []"
    and "\<And>n t es. P t \<Longrightarrow> Q es \<Longrightarrow> Q ((n, t) # es)"
  shows "P t" and "Q es"
proof -
  have P: "P t" for t
  proof (induction t)
    case (Directory es)
    have "set es' \<subseteq> set es \<Longrightarrow> Q es'" for es'
    proof (induction es')
      case Nil
      show ?case by (rule assms(5))
    next
      case (Cons a es')
      obtain n t where a: "a = (n, t)" by (cases a)
      with Cons.prems have "(n, t) \<in> set es" by simp
      then have "P t" using Directory.IH by fastforce
      moreover have "Q es'" using Cons by simp
      ultimately show ?case unfolding a by (rule assms(6))
    qed
    then have "Q es" by simp
    then show ?case by (rule assms(2))
  qed (rule assms)+
  show "P t" by (rule P)
  show "Q es"
  proof (induction es)
    case Nil
    show ?case by (rule assms(5))
  next
    case (Cons a es)
    obtain n t where a: "a = (n, t)" by (cases a)
    show ?case unfolding a using P Cons by (rule assms(6))
  qed
qed

text \<open>The function handed to the walk only appends to the trace it is given.\<close>

lemma walkFn_shift:
  "walkFn fsys api cg pid path info err (k, tr) =
     (case walkFn fsys api cg pid path info err (k, []) of (r, k', ev) \<Rightarrow> (r, k', tr @ ev))"
  by (simp add: walkFn_def split: option.splits prod.splits)

lemma walk_shift:
  "walk (walkFn fsys api cg pid) path t (k, tr) =
     (case walk (walkFn fsys api cg pid) path t (k, []) of (r, k', ev) \<Rightarrow> (r, k', tr @ ev))"
  and walk_names_shift:
  "walk_names (walkFn fsys api cg pid) path es (k, tr) =
     (case walk_names (walkFn fsys api cg pid) path es (k, []) of (r, k', ev) \<Rightarrow> (r, k', tr @ ev))"
proof (induction t and es arbitrary: path k tr and path k tr rule: ftree_list_induct)
  case File
  show ?case by (simp add: walkFn_shift [of _ _ _ _ _ _ _ _ tr])
next
  case (Directory es)
  show ?case
    using Directory [of path k tr]
    by (simp add: walkFn_def)
next
  case (Unreadable e)
  show ?case by (simp add: walkFn_def)
next
  case (NoStat e)
  show ?case by (simp add: walkFn_def)
next
  case Nil
  show ?case by simp
next
  case (Cons n t es)
  obtain r k1 ev1 where
    w0: "walk (walkFn fsys api cg pid) (path_Join [path, n]) t (k, []) = (r, k1, ev1)"
    by (cases "walk (walkFn fsys api cg pid) (path_Join [path, n]) t (k, [])") auto
  have w1: "walk (walkFn fsys api cg pid) (path_Join [path, n]) t (k, tr) = (r, k1, tr @ ev1)"
    using Cons.IH(1) [of "path_Join [path, n]" k tr] w0 by simp
  show ?case
  proof (cases "r = Inr None")
    case True
    show ?thesis
      using Cons.IH(2) [of path k1 "tr @ ev1"] Cons.IH(2) [of path k1 ev1] w0 w1 True
      by (simp split: prod.splits)
  next
    case False
    then show ?thesis using w0 w1 by (auto split: sum.splits option.splits)
  qed
qed

text \<open>Reading the resolver calls and the examined mounts off a trace.\<close>

lemma resolver_calls_append [simp]:
  "resolver_calls (a @ b) = resolver_calls a @ resolver_calls b"
  by (simp add: resolver_calls_def)

lemma resolver_calls_simps [simp]:
  "resolver_calls [] = []"
  "resolver_calls (e # ev) = (case e of Call_unix_Stat p \<Rightarrow> [p] | _ \<Rightarrow> []) @ resolver_calls ev"
  by (simp_all add: resolver_calls_def)

lemma examined_append [simp]: "examined (a @ b) = examined a @ examined b"
  by (simp add: examined_def)

lemma examined_simps [simp]:
  "examined [] = []"
  "examined (e # ev) =
     (case e of Log_requested_mount c p src dst \<Rightarrow> [src] | _ \<Rightarrow> []) @ examined ev"
  by (simp_all add: examined_def)

lemma applyDeviceRules_events:
  "e \<in> set (snd (snd (applyDeviceRules fsys api mp cg pid k))) \<Longrightarrow> pipeline_event_ok fsys cg mp e"
  by (auto simp: applyDeviceRules_def getDeviceInfo_def rule_for_def pipeline_event_ok_def Let_def
      split: sum.splits option.splits prod.splits if_splits)

lemma applyDeviceRules_calls:
  "resolver_calls (snd (snd (applyDeviceRules fsys api mp cg pid k))) = [mp]"
  by (auto simp: applyDeviceRules_def getDeviceInfo_def Let_def
      split: sum.splits option.splits prod.splits if_splits)

lemma walk_events:
  "e \<in> set (snd (snd (walk (walkFn fsys api cg pid) path t (k, [])))) \<Longrightarrow>
     \<exists>mp \<in> set (files path t). pipeline_event_ok fsys cg mp e"
  and walk_names_events:
  "e \<in> set (snd (snd (walk_names (walkFn fsys api cg pid) path es (k, [])))) \<Longrightarrow>
     \<exists>mp \<in> set (files_names path es). pipeline_event_ok fsys cg mp e"
proof (induction t and es arbitrary: path k and path k rule: ftree_list_induct)
  case File
  then show ?case
    using applyDeviceRules_events [of e fsys api path cg pid k]
    by (auto simp: walkFn_def pipeline_event_ok_def split: prod.splits option.splits)
next
  case (Directory es)
  then show ?case by (simp add: walkFn_def)
next
  case (Unreadable e)
  then show ?case by (simp add: walkFn_def)
next
  case (NoStat e)
  then show ?case by (simp add: walkFn_def)
next
  case Nil
  then show ?case by simp
next
  case (Cons n t es)
  obtain r k1 ev1 where
    w0: "walk (walkFn fsys api cg pid) (path_Join [path, n]) t (k, []) = (r, k1, ev1)"
    by (cases "walk (walkFn fsys api cg pid) (path_Join [path, n]) t (k, [])") auto
  obtain r2 k2 ev2 where
    w2: "walk_names (walkFn fsys api cg pid) path es (k1, []) = (r2, k2, ev2)"
    by (cases "walk_names (walkFn fsys api cg pid) path es (k1, [])") auto
  have "e \<in> set ev1 \<or> e \<in> set ev2"
    using Cons.prems w0 w2 walk_names_shift [of fsys api cg pid path es k1 ev1]
    by (auto split: sum.splits option.splits)
  then show ?case
    using Cons.IH(1) [of "path_Join [path, n]" k] Cons.IH(2) [of path k1] w0 w2
    by auto
qed


section \<open>The loop over the mounts\<close>

text \<open>The six ways through the body of the loop.\<close>

lemma mount_skip:
  "\<not> HasPrefix (Source m) ''/dev'' \<Longrightarrow>
     processContainer_mount w cid pid version m k =
       (Continue, k, [Log_requested_mount cid pid (Source m) (Destination m),
                      Log_not_a_device (Source m)])"
  by (simp add: processContainer_mount_def)

lemma mount_nil:
  "HasPrefix (Source m) ''/dev'' \<Longrightarrow> fst (New w version) = None \<Longrightarrow>
     processContainer_mount w cid pid version m k =
       (Abort NilInterface, k,
        [Log_requested_mount cid pid (Source m) (Destination m), Call_New version])"
  by (simp add: processContainer_mount_def)

lemma mount_break:
  "HasPrefix (Source m) ''/dev'' \<Longrightarrow> fst (New w version) = Some api \<Longrightarrow>
   GetDeviceCGroupMountPath api ''/'' pid = Inl err \<Longrightarrow>
     processContainer_mount w cid pid version m k =
       (Break, k,
        [Log_requested_mount cid pid (Source m) (Destination m), Call_New version,
         Call_GetDeviceCGroupMountPath ''/'' pid, Log_err err])"
  by (simp add: processContainer_mount_def)

lemma mount_stat_fails:
  "HasPrefix (Source m) ''/dev'' \<Longrightarrow> fst (New w version) = Some api \<Longrightarrow>
   GetDeviceCGroupMountPath api ''/'' pid = Inr (cg0, sysfs) \<Longrightarrow>
   os_Stat (fs w) (Source m) = Inl err \<Longrightarrow>
     processContainer_mount w cid pid version m k =
       (Continue, k,
        [Log_requested_mount cid pid (Source m) (Destination m), Call_New version,
         Call_GetDeviceCGroupMountPath ''/'' pid,
         Log_cgroup_path pid (path_Join [rootPath, sysfs, cg0]),
         Call_os_Stat (Source m), Log_err err])"
  by (simp add: processContainer_mount_def)

lemma mount_single:
  "HasPrefix (Source m) ''/dev'' \<Longrightarrow> fst (New w version) = Some api \<Longrightarrow>
   GetDeviceCGroupMountPath api ''/'' pid = Inr (cg0, sysfs) \<Longrightarrow>
   os_Stat (fs w) (Source m) = Inr info \<Longrightarrow> \<not> IsDir info \<Longrightarrow>
     processContainer_mount w cid pid version m k =
       (case applyDeviceRules (fs w) api (Source m) (path_Join [rootPath, sysfs, cg0]) pid k of
          (r, k', ev) \<Rightarrow>
            (Continue, k',
             [Log_requested_mount cid pid (Source m) (Destination m), Call_New version,
              Call_GetDeviceCGroupMountPath ''/'' pid,
              Log_cgroup_path pid (path_Join [rootPath, sysfs, cg0]),
              Call_os_Stat (Source m)] @ ev @ (case r of Some err \<Rightarrow> [Log_err err] | None \<Rightarrow> [])))"
  by (simp add: processContainer_mount_def split: prod.splits option.splits)

lemma mount_walk:
  "HasPrefix (Source m) ''/dev'' \<Longrightarrow> fst (New w version) = Some api \<Longrightarrow>
   GetDeviceCGroupMountPath api ''/'' pid = Inr (cg0, sysfs) \<Longrightarrow>
   os_Stat (fs w) (Source m) = Inr info \<Longrightarrow> IsDir info \<Longrightarrow>
     processContainer_mount w cid pid version m k =
       (case walk (walkFn (fs w) api (path_Join [rootPath, sysfs, cg0]) pid) (Source m)
               (lstat_tree (fs w) (Source m)) (k, []) of
          (r, k', ev) \<Rightarrow>
            (case r of Inl a \<Rightarrow> Abort a | Inr x \<Rightarrow> Continue, k',
             [Log_requested_mount cid pid (Source m) (Destination m), Call_New version,
              Call_GetDeviceCGroupMountPath ''/'' pid,
              Log_cgroup_path pid (path_Join [rootPath, sysfs, cg0]),
              Call_os_Stat (Source m), Call_Walk (Source m)] @ ev
             @ (case r of Inr (Some err) \<Rightarrow> [Log_err err] | _ \<Rightarrow> [])))"
  unfolding processContainer_mount_def Walk_def Let_def
  by (subst walk_shift) (simp split: prod.splits option.splits sum.splits)

lemma mount_cases [case_names skip nil break stat_fails single walk]:
  assumes "\<not> HasPrefix (Source m) ''/dev'' \<Longrightarrow> P"
    and "HasPrefix (Source m) ''/dev'' \<Longrightarrow> fst (New w version) = None \<Longrightarrow> P"
    and "\<And>api err. HasPrefix (Source m) ''/dev'' \<Longrightarrow> fst (New w version) = Some api \<Longrightarrow>
           GetDeviceCGroupMountPath api ''/'' pid = Inl err \<Longrightarrow> P"
    and "\<And>api cg0 sysfs err. HasPrefix (Source m) ''/dev'' \<Longrightarrow> fst (New w version) = Some api \<Longrightarrow>
           GetDeviceCGroupMountPath api ''/'' pid = Inr (cg0, sysfs) \<Longrightarrow>
           os_Stat (fs w) (Source m) = Inl err \<Longrightarrow> P"
    and "\<And>api cg0 sysfs info. HasPrefix (Source m) ''/dev'' \<Longrightarrow> fst (New w version) = Some api \<Longrightarrow>
           GetDeviceCGroupMountPath api ''/'' pid = Inr (cg0, sysfs) \<Longrightarrow>
           os_Stat (fs w) (Source m) = Inr info \<Longrightarrow> \<not> IsDir info \<Longrightarrow> P"
    and "\<And>api cg0 sysfs info. HasPrefix (Source m) ''/dev'' \<Longrightarrow> fst (New w version) = Some api \<Longrightarrow>
           GetDeviceCGroupMountPath api ''/'' pid = Inr (cg0, sysfs) \<Longrightarrow>
           os_Stat (fs w) (Source m) = Inr info \<Longrightarrow> IsDir info \<Longrightarrow> P"
  shows P
proof (cases "HasPrefix (Source m) ''/dev''")
  case False
  then show ?thesis by (rule assms(1))
next
  case pre: True
  show ?thesis
  proof (cases "fst (New w version)")
    case None
    with pre show ?thesis by (rule assms(2))
  next
    case (Some api)
    show ?thesis
    proof (cases "GetDeviceCGroupMountPath api ''/'' pid")
      case (Inl err)
      with pre Some show ?thesis by (rule assms(3))
    next
      case (Inr pr)
      obtain cg0 sysfs where pr: "pr = (cg0, sysfs)" by (cases pr)
      show ?thesis
      proof (cases "os_Stat (fs w) (Source m)")
        case (Inl err)
        with pre Some Inr pr show ?thesis using assms(4) by blast
      next
        case st: (Inr info)
        show ?thesis
        proof (cases "IsDir info")
          case True
          with pre Some Inr pr st show ?thesis using assms(6) by blast
        next
          case False
          with pre Some Inr pr st show ?thesis using assms(5) by blast
        qed
      qed
    qed
  qed
qed

lemma mount_events:
  assumes "e \<in> set (snd (snd (processContainer_mount w cid pid version m k)))"
  shows "mount_event_ok w cid pid version m e"
proof (cases rule: mount_cases [where m = m and w = w and version = version and pid = pid])
  case skip
  then show ?thesis using assms by (auto simp: mount_skip mount_event_ok_def)
next
  case nil
  then show ?thesis using assms by (auto simp: mount_nil mount_event_ok_def)
next
  case (break api err)
  then show ?thesis using assms by (auto simp: mount_break mount_event_ok_def)
next
  case (stat_fails api cg0 sysfs err)
  then show ?thesis using assms by (auto simp: mount_stat_fails mount_event_ok_def)
next
  case (single api cg0 sysfs info)
  obtain r k' ev where
    a: "applyDeviceRules (fs w) api (Source m) (path_Join [rootPath, sysfs, cg0]) pid k = (r, k', ev)"
    by (cases "applyDeviceRules (fs w) api (Source m) (path_Join [rootPath, sysfs, cg0]) pid k") auto
  have "e \<in> set ev \<Longrightarrow> pipeline_event_ok (fs w) (path_Join [rootPath, sysfs, cg0]) (Source m) e"
    using applyDeviceRules_events [of e "fs w" api "Source m" "path_Join [rootPath, sysfs, cg0]" pid k] a
    by simp
  then show ?thesis
    using assms single a
    by (auto simp: mount_single [OF single] mount_event_ok_def split: option.splits)
next
  case (walk api cg0 sysfs info)
  obtain r k' ev where
    a: "walk (walkFn (fs w) api (path_Join [rootPath, sysfs, cg0]) pid) (Source m)
               (lstat_tree (fs w) (Source m)) (k, []) = (r, k', ev)"
    by (cases "walk (walkFn (fs w) api (path_Join [rootPath, sysfs, cg0]) pid) (Source m)
               (lstat_tree (fs w) (Source m)) (k, [])") auto
  have "e \<in> set ev \<Longrightarrow> \<exists>mp \<in> set (files (Source m) (lstat_tree (fs w) (Source m))).
           pipeline_event_ok (fs w) (path_Join [rootPath, sysfs, cg0]) mp e"
    using walk_events [of e "fs w" api "path_Join [rootPath, sysfs, cg0]" pid "Source m"
        "lstat_tree (fs w) (Source m)" k] a
    by simp
  then show ?thesis
    using assms walk a
    by (auto simp: mount_walk [OF walk] mount_event_ok_def split: option.splits sum.splits)
qed

section \<open>The events of a run\<close>

lemma mounts_events:
  "e \<in> set (snd (snd (processContainer_mounts w cid pid version ms k))) \<Longrightarrow>
     \<exists>m \<in> set ms. mount_event_ok w cid pid version m e"
proof (induction ms arbitrary: k)
  case Nil
  then show ?case by simp
next
  case (Cons m ms)
  obtain c k1 ev1 where b: "processContainer_mount w cid pid version m k = (c, k1, ev1)"
    by (cases "processContainer_mount w cid pid version m k") auto
  obtain a k2 ev2 where r: "processContainer_mounts w cid pid version ms k1 = (a, k2, ev2)"
    by (cases "processContainer_mounts w cid pid version ms k1") auto
  have "e \<in> set ev1 \<or> e \<in> set ev2"
    using Cons.prems b r by (cases c) auto
  then show ?case
    using mount_events [of e w cid pid version m k] Cons.IH [of k1] b r by auto
qed

lemma processContainer_events:
  assumes "e \<in> set (snd (snd (processContainer w cid k)))"
  shows "e = Call_ContainerInspect cid
       \<or> (\<exists>info. ContainerInspect w cid = Inr info
            \<and> (e = Call_GetDeviceCGroupVersion ''/'' (Pid info)
               \<or> e = Log_cgroup_version (Pid info) (fst (GetDeviceCGroupVersion w ''/'' (Pid info)))
               \<or> e = Log_checking_mounts (Pid info)
               \<or> (\<exists>err. e = Log_err err)
               \<or> (\<exists>m \<in> set (Mounts info).
                     mount_event_ok w cid (Pid info)
                       (fst (GetDeviceCGroupVersion w ''/'' (Pid info))) m e)))"
proof (cases "ContainerInspect w cid")
  case (Inl err)
  then show ?thesis using assms by (simp add: processContainer_def)
next
  case (Inr info)
  obtain version verr where v: "GetDeviceCGroupVersion w ''/'' (Pid info) = (version, verr)"
    by (cases "GetDeviceCGroupVersion w ''/'' (Pid info)") auto
  show ?thesis
  proof (cases verr)
    case (Some err)
    then show ?thesis using assms Inr v by (auto simp: processContainer_def Let_def)
  next
    case None
    obtain a k2 ev2 where
      r: "processContainer_mounts w cid (Pid info) version (Mounts info) k = (a, k2, ev2)"
      by (cases "processContainer_mounts w cid (Pid info) version (Mounts info) k") auto
    have "e \<in> set ev2 \<Longrightarrow> \<exists>m \<in> set (Mounts info). mount_event_ok w cid (Pid info) version m e"
      using mounts_events [of e w cid "Pid info" version "Mounts info" k] r by simp
    then show ?thesis using assms Inr v None r by (auto simp: processContainer_def Let_def)
  qed
qed

lemma checkExistingContainers_loop_events:
  "e \<in> set (snd (snd (checkExistingContainers_loop w cs k))) \<Longrightarrow>
     (\<exists>c \<in> set cs. e = Log_checking_existing (take 10 (ID c)) (Image c))
     \<or> (\<exists>c \<in> set cs. \<exists>k'. e \<in> set (snd (snd (processContainer w (ID c) k'))))"
proof (induction cs arbitrary: k)
  case Nil
  then show ?case by simp
next
  case (Cons c cs)
  obtain a k1 ev1 where p: "processContainer w (ID c) k = (a, k1, ev1)"
    by (cases "processContainer w (ID c) k") auto
  obtain a2 k2 ev2 where r: "checkExistingContainers_loop w cs k1 = (a2, k2, ev2)"
    by (cases "checkExistingContainers_loop w cs k1") auto
  have "e = Log_checking_existing (take 10 (ID c)) (Image c) \<or> e \<in> set ev1 \<or> e \<in> set ev2"
    using Cons.prems p r by (auto split: if_splits option.splits)
  then consider "e = Log_checking_existing (take 10 (ID c)) (Image c)"
    | "e \<in> set (snd (snd (processContainer w (ID c) k)))"
    | "e \<in> set (snd (snd (checkExistingContainers_loop w cs k1)))"
    using p r by auto
  then show ?case
  proof cases
    case 1
    then show ?thesis by simp
  next
    case 2
    then have "\<exists>k'. e \<in> set (snd (snd (processContainer w (ID c) k')))" by blast
    then show ?thesis by simp
  next
    case 3
    then show ?thesis using Cons.IH [of k1] by auto
  qed
qed

lemma checkExistingContainers_events:
  assumes "e \<in> set (snd (snd (checkExistingContainers w k)))"
  shows "e = Call_ContainerList
     \<or> (\<exists>c img. e = Log_checking_existing c img)
     \<or> (\<exists>cid k'. e \<in> set (snd (snd (processContainer w cid k'))))"
proof (cases "ContainerList w")
  case (Inl err)
  then show ?thesis using assms by (simp add: checkExistingContainers_def)
next
  case (Inr cs)
  then have "e = Call_ContainerList \<or> e \<in> set (snd (snd (checkExistingContainers_loop w cs k)))"
    using assms by (auto simp: checkExistingContainers_def split: prod.splits)
  then show ?thesis
    using checkExistingContainers_loop_events [of e w cs k] by blast
qed

lemma listenForMounts_events:
  "e \<in> set (snd (snd (listenForMounts w ds k))) \<Longrightarrow>
     (\<exists>err. e = Log_err err)
     \<or> (\<exists>cid k'. e \<in> set (snd (snd (processContainer w cid k'))))"
proof (induction ds arbitrary: k)
  case Nil
  then show ?case by simp
next
  case (Cons d rest)
  show ?case
  proof (cases d)
    case (From_errs err)
    then show ?thesis using Cons.prems by simp
  next
    case (From_msgs actor_id)
    obtain a k1 ev1 where p: "processContainer w actor_id k = (a, k1, ev1)"
      by (cases "processContainer w actor_id k") auto
    obtain a2 k2 ev2 where r: "listenForMounts w rest k1 = (a2, k2, ev2)"
      by (cases "listenForMounts w rest k1") auto
    have "e \<in> set ev1 \<or> e \<in> set ev2"
      using Cons.prems From_msgs p r by (cases a) auto
    then show ?thesis
    proof
      assume "e \<in> set ev1"
      then have "e \<in> set (snd (snd (processContainer w actor_id k)))" using p by simp
      then show ?thesis by blast
    next
      assume "e \<in> set ev2"
      then show ?thesis using Cons.IH [of k1] r by simp
    qed
  qed
qed

text \<open>The calls found in the trace of \<^verbatim>\<open>processContainer\<close>, by kind.\<close>

lemma mount_event_ok_AddDeviceRules:
  assumes "mount_event_ok w cid pid version m (Call_AddDeviceRules cg rules)"
  shows "\<exists>api cg0 sysfs mp.
           fst (New w version) = Some api
         \<and> GetDeviceCGroupMountPath api ''/'' pid = Inr (cg0, sysfs)
         \<and> cg = path_Join [rootPath, sysfs, cg0]
         \<and> mp \<in> set (Source m # files (Source m) (lstat_tree (fs w) (Source m)))
         \<and> rule_for (fs w) mp rules"
proof (cases "fst (New w version)")
  case None
  then show ?thesis using assms by (simp add: mount_event_ok_def)
next
  case (Some api)
  show ?thesis
  proof (cases "GetDeviceCGroupMountPath api ''/'' pid")
    case (Inl err)
    then show ?thesis using assms Some by (simp add: mount_event_ok_def)
  next
    case (Inr pr)
    obtain cg0 sysfs where pr: "pr = (cg0, sysfs)" by (cases pr)
    show ?thesis
      using assms Some Inr pr
      by (auto simp: mount_event_ok_def pipeline_event_ok_def)
  qed
qed

lemma mount_event_ok_unix_Stat:
  assumes "mount_event_ok w cid pid version m (Call_unix_Stat p)"
  shows "p \<in> set (Source m # files (Source m) (lstat_tree (fs w) (Source m)))"
proof (cases "fst (New w version)")
  case None
  then show ?thesis using assms by (simp add: mount_event_ok_def)
next
  case (Some api)
  show ?thesis
  proof (cases "GetDeviceCGroupMountPath api ''/'' pid")
    case (Inl err)
    then show ?thesis using assms Some by (simp add: mount_event_ok_def)
  next
    case (Inr pr)
    obtain cg0 sysfs where pr: "pr = (cg0, sysfs)" by (cases pr)
    show ?thesis
      using assms Some Inr pr
      by (auto simp: mount_event_ok_def pipeline_event_ok_def)
  qed
qed

lemma mount_event_ok_never:
  "\<not> mount_event_ok w cid pid version m (Call_GetDeviceCGroupVersion root p)"
  "\<not> mount_event_ok w cid pid version m (Call_ContainerInspect c)"
  "\<not> mount_event_ok w cid pid version m Call_ContainerList"
  by (auto simp: mount_event_ok_def pipeline_event_ok_def
      split: option.splits sum.splits prod.splits)

lemma mount_event_ok_calls:
  "mount_event_ok w cid pid version m (Call_GetDeviceCGroupMountPath root p) \<Longrightarrow> root = ''/''"
  "mount_event_ok w cid pid version m (Call_os_Stat q) \<Longrightarrow> q = Source m"
  "mount_event_ok w cid pid version m (Call_Walk q) \<Longrightarrow> q = Source m"
  by (auto simp: mount_event_ok_def pipeline_event_ok_def
      split: option.splits sum.splits prod.splits)

lemma AddDeviceRules_event:
  assumes "Call_AddDeviceRules cg rules \<in> set (snd (snd (processContainer w cid k)))"
  shows "\<exists>info api cg0 sysfs m mp.
           ContainerInspect w cid = Inr info
         \<and> fst (New w (fst (GetDeviceCGroupVersion w ''/'' (Pid info)))) = Some api
         \<and> GetDeviceCGroupMountPath api ''/'' (Pid info) = Inr (cg0, sysfs)
         \<and> cg = path_Join [rootPath, sysfs, cg0]
         \<and> m \<in> set (Mounts info)
         \<and> mp \<in> set (Source m # files (Source m) (lstat_tree (fs w) (Source m)))
         \<and> rule_for (fs w) mp rules"
proof -
  from processContainer_events [OF assms] obtain info m where
    i: "ContainerInspect w cid = Inr info" and m: "m \<in> set (Mounts info)"
    and ok: "mount_event_ok w cid (Pid info) (fst (GetDeviceCGroupVersion w ''/'' (Pid info))) m
               (Call_AddDeviceRules cg rules)"
    by auto
  from mount_event_ok_AddDeviceRules [OF ok] i m show ?thesis by blast
qed

lemma unix_Stat_event:
  assumes "Call_unix_Stat p \<in> set (snd (snd (processContainer w cid k)))"
  shows "\<exists>info m. ContainerInspect w cid = Inr info \<and> m \<in> set (Mounts info)
           \<and> p \<in> set (Source m # files (Source m) (lstat_tree (fs w) (Source m)))"
proof -
  from processContainer_events [OF assms] obtain info m where
    i: "ContainerInspect w cid = Inr info" and m: "m \<in> set (Mounts info)"
    and ok: "mount_event_ok w cid (Pid info) (fst (GetDeviceCGroupVersion w ''/'' (Pid info))) m
               (Call_unix_Stat p)"
    by auto
  from mount_event_ok_unix_Stat [OF ok] i m show ?thesis by blast
qed

lemma other_call_events:
  assumes "e \<in> set (snd (snd (processContainer w cid k)))"
  shows "(\<forall>root pid. e = Call_GetDeviceCGroupVersion root pid \<longrightarrow> root = ''/'')
       \<and> (\<forall>root pid. e = Call_GetDeviceCGroupMountPath root pid \<longrightarrow> root = ''/'')
       \<and> (\<forall>p. e = Call_os_Stat p \<or> e = Call_Walk p \<longrightarrow>
             (\<exists>info. ContainerInspect w cid = Inr info \<and> p \<in> Source ` set (Mounts info)))"
  using processContainer_events [OF assms]
  by (auto simp: mount_event_ok_never dest: mount_event_ok_calls)

section \<open>The host root prefix\<close>

text \<open>A joined path stays below its first element when no later element steps up with
  \<^verbatim>\<open>..\<close>; for the host root:\<close>

lemma split_on_not_Nil: "split_on c xs \<noteq> []"
  by (induction xs) (auto split: list.splits)

lemma split_on_append: "split_on c (xs @ c # ys) = split_on c xs @ split_on c ys"
  using split_on_not_Nil [of c] by (induction xs) (auto split: list.splits)

lemma split_on_concat:
  "split_on c (xs @ concat (map (\<lambda>e. c # e) es)) = split_on c xs @ concat (map (split_on c) es)"
proof (induction es arbitrary: xs)
  case Nil
  show ?case by simp
next
  case (Cons e es)
  have "split_on c (xs @ concat (map (\<lambda>e. c # e) (e # es)))
          = split_on c (xs @ c # (e @ concat (map (\<lambda>e. c # e) es)))"
    by simp
  also have "\<dots> = split_on c xs @ split_on c (e @ concat (map (\<lambda>e. c # e) es))"
    by (rule split_on_append)
  also have "\<dots> = split_on c xs @ concat (map (split_on c) (e # es))"
    using Cons.IH [of e] by simp
  finally show ?case .
qed

lemma join_with_Cons:
  "join_with sep (x # xs) = x @ concat (map (\<lambda>e. sep @ e) xs)"
  by (induction xs arbitrary: x) simp_all

lemma clean_step_pushes:
  assumes "''..'' \<notin> set els"
  shows "\<exists>xs. foldl (clean_step rooted) out els = xs @ out"
  using assms
proof (induction els arbitrary: out)
  case Nil
  show ?case by simp
next
  case (Cons el els)
  then obtain xs where "foldl (clean_step rooted) (clean_step rooted out el) els
                          = xs @ clean_step rooted out el"
    by fastforce
  moreover have "clean_step rooted out el = out \<or> clean_step rooted out el = el # out"
    using Cons.prems by (auto simp: clean_step_def)
  ultimately show ?case by auto
qed

lemma path_Join_under_rootPath:
  assumes "\<forall>e \<in> set rest. ''..'' \<notin> set (split_on (CHR ''/'') e)"
  shows "HasPrefix (path_Join (rootPath # rest)) rootPath"
proof -
  define es where "es = filter (\<lambda>e. e \<noteq> []) rest"
  define p where "p = ''/host'' @ concat (map (\<lambda>e. CHR ''/'' # e) es)"
  define els where "els = concat (map (split_on (CHR ''/'')) es)"
  have j: "path_Join (rootPath # rest) = path_Clean p"
    by (simp add: path_Join_def rootPath_def join_with_Cons p_def es_def)
  have ne: "p \<noteq> []" and hd: "hd p = CHR ''/''"
    by (simp_all add: p_def)
  have s: "split_on (CHR ''/'') p = [[], ''host''] @ els"
    unfolding p_def els_def using split_on_concat [of "CHR ''/''" "''/host''" es] by simp
  have "''..'' \<notin> set els" using assms by (auto simp: els_def es_def)
  then obtain xs where "foldl (clean_step True) [''host''] els = xs @ [''host'']"
    using clean_step_pushes by blast
  then have f: "foldl (clean_step True) [] (split_on (CHR ''/'') p) = xs @ [''host'']"
    unfolding s by (simp add: clean_step_def)
  have "path_Clean p = ''/host'' @ concat (map (\<lambda>e. ''/'' @ e) (rev xs))"
    by (simp add: path_Clean_def ne hd f join_with_Cons)
  then show ?thesis
    unfolding j by (simp add: HasPrefix_def rootPath_def)
qed

text \<open>
  Claim C5, as amended. Of the paths the program hands to the outside, only the cgroup
  path given to \<^verbatim>\<open>AddDeviceRules\<close> carries the host root: it is
  \<^verbatim>\<open>path.Join(rootPath, sysfsPath, cgroupPath)\<close> of what the path resolver returned, which
  lies under \<^verbatim>\<open>/host\<close> when neither returned path has a \<^verbatim>\<open>..\<close> element. Version
  detection and path resolution are called with the root \<^verbatim>\<open>/\<close>; \<^verbatim>\<open>os.Stat\<close> and
  \<^verbatim>\<open>filepath.Walk\<close> get a mount source as it stands, and \<^verbatim>\<open>unix.Stat\<close> gets a mount source
  or a path the walk built from one.
\<close>

theorem host_root_joined_to_cgroup_path_only:
  assumes "e \<in> set (snd (snd (processContainer w cid k)))"
  shows "case e of
           Call_GetDeviceCGroupVersion root pid \<Rightarrow> root = ''/''
         | Call_GetDeviceCGroupMountPath root pid \<Rightarrow> root = ''/''
         | Call_os_Stat p \<Rightarrow>
             (\<exists>info. ContainerInspect w cid = Inr info \<and> p \<in> Source ` set (Mounts info))
         | Call_Walk p \<Rightarrow>
             (\<exists>info. ContainerInspect w cid = Inr info \<and> p \<in> Source ` set (Mounts info))
         | Call_unix_Stat p \<Rightarrow>
             (\<exists>info m. ContainerInspect w cid = Inr info \<and> m \<in> set (Mounts info)
                \<and> p \<in> set (Source m # files (Source m) (lstat_tree (fs w) (Source m))))
         | Call_AddDeviceRules cgroupPath rules \<Rightarrow>
             (\<exists>info api cgroupPath0 sysfsPath.
                ContainerInspect w cid = Inr info
              \<and> fst (New w (fst (GetDeviceCGroupVersion w ''/'' (Pid info)))) = Some api
              \<and> GetDeviceCGroupMountPath api ''/'' (Pid info) = Inr (cgroupPath0, sysfsPath)
              \<and> cgroupPath = path_Join [rootPath, sysfsPath, cgroupPath0]
              \<and> (''..'' \<notin> set (split_on (CHR ''/'') sysfsPath)
                   \<and> ''..'' \<notin> set (split_on (CHR ''/'') cgroupPath0)
                   \<longrightarrow> HasPrefix cgroupPath rootPath))
         | _ \<Rightarrow> True"
proof (cases e)
  case (Call_AddDeviceRules cg rules)
  then obtain info api cg0 sysfs where
    "ContainerInspect w cid = Inr info"
    "fst (New w (fst (GetDeviceCGroupVersion w ''/'' (Pid info)))) = Some api"
    "GetDeviceCGroupMountPath api ''/'' (Pid info) = Inr (cg0, sysfs)"
    "cg = path_Join [rootPath, sysfs, cg0]"
    using AddDeviceRules_event [of cg rules w cid k] assms by auto
  moreover have "HasPrefix (path_Join [rootPath, sysfs, cg0]) rootPath"
    if "''..'' \<notin> set (split_on (CHR ''/'') sysfs)" "''..'' \<notin> set (split_on (CHR ''/'') cg0)"
    using that path_Join_under_rootPath [of "[sysfs, cg0]"] by simp
  ultimately show ?thesis using Call_AddDeviceRules by auto
next
  case (Call_unix_Stat p)
  then show ?thesis using unix_Stat_event [of p w cid k] assms by auto
qed (use other_call_events [OF assms] in auto)

theorem host_root_joined_to_cgroup_path_only_witness:
  "Call_AddDeviceRules ''/host/sys/fs/cgroup/docker/4f0c''
     [\<lparr>Access = ''rwm'', Major = Some 1, Minor = Some 3, Type = ''c'', Allow = True\<rparr>]
     \<in> set (snd (snd (processContainer
           (example_world V2 resolve_ok [\<lparr>Source = ''/dev/null'', Destination = ''/dev/null''\<rparr>])
           ''4f0c3e2a1b9d'' empty_kstate)))
   \<and> (\<exists>info api cgroupPath0 sysfsPath.
          ContainerInspect
            (example_world V2 resolve_ok [\<lparr>Source = ''/dev/null'', Destination = ''/dev/null''\<rparr>])
            ''4f0c3e2a1b9d'' = Inr info
        \<and> fst (New (example_world V2 resolve_ok
                        [\<lparr>Source = ''/dev/null'', Destination = ''/dev/null''\<rparr>])
                 (fst (GetDeviceCGroupVersion
                        (example_world V2 resolve_ok
                          [\<lparr>Source = ''/dev/null'', Destination = ''/dev/null''\<rparr>])
                        ''/'' (Pid info)))) = Some api
        \<and> GetDeviceCGroupMountPath api ''/'' (Pid info) = Inr (cgroupPath0, sysfsPath)
        \<and> ''/host/sys/fs/cgroup/docker/4f0c'' = path_Join [rootPath, sysfsPath, cgroupPath0])
   \<and> HasPrefix ''/host/sys/fs/cgroup/docker/4f0c'' rootPath"
proof -
  have m: "Call_AddDeviceRules ''/host/sys/fs/cgroup/docker/4f0c''
     [\<lparr>Access = ''rwm'', Major = Some 1, Minor = Some 3, Type = ''c'', Allow = True\<rparr>]
     \<in> set (snd (snd (processContainer
           (example_world V2 resolve_ok [\<lparr>Source = ''/dev/null'', Destination = ''/dev/null''\<rparr>])
           ''4f0c3e2a1b9d'' empty_kstate)))"
    by code_simp
  have h: "HasPrefix ''/host/sys/fs/cgroup/docker/4f0c'' rootPath" by code_simp
  from host_root_joined_to_cgroup_path_only [OF m] m h show ?thesis by auto
qed

text \<open>
  The claim as it was stated fails: for a container that mounts \<^verbatim>\<open>/dev/null\<close>, the device
  is resolved by a \<^verbatim>\<open>stat\<close> of \<^verbatim>\<open>/dev/null\<close> itself, and version detection and path
  resolution are given the root \<^verbatim>\<open>/\<close>; neither lies under \<^verbatim>\<open>/host\<close>.
\<close>

theorem host_root_prefix_counterexample:
  "Call_unix_Stat ''/dev/null''
     \<in> set (snd (snd (processContainer
           (example_world V2 resolve_ok [\<lparr>Source = ''/dev/null'', Destination = ''/dev/null''\<rparr>])
           ''4f0c3e2a1b9d'' empty_kstate)))
   \<and> \<not> HasPrefix ''/dev/null'' rootPath
   \<and> Call_GetDeviceCGroupVersion ''/'' 4242
     \<in> set (snd (snd (processContainer
           (example_world V2 resolve_ok [\<lparr>Source = ''/dev/null'', Destination = ''/dev/null''\<rparr>])
           ''4f0c3e2a1b9d'' empty_kstate)))
   \<and> Call_GetDeviceCGroupMountPath ''/'' 4242
     \<in> set (snd (snd (processContainer
           (example_world V2 resolve_ok [\<lparr>Source = ''/dev/null'', Destination = ''/dev/null''\<rparr>])
           ''4f0c3e2a1b9d'' empty_kstate)))
   \<and> \<not> HasPrefix ''/'' rootPath"
  by code_simp

section \<open>Directories and single files\<close>




section \<open>Mounts outside the device directory\<close>

text \<open>A mount whose source does not start with the characters \<^verbatim>\<open>/dev\<close> is logged and
  skipped: nothing is resolved, nothing is applied, the state stays.\<close>

lemma mounts_without_dev_prefix_are_skipped:
  assumes "\<forall>m \<in> set ms. \<not> HasPrefix (Source m) ''/dev''"
  shows "processContainer_mounts w cid pid version ms k =
           (None, k, concat (map (\<lambda>m. [Log_requested_mount cid pid (Source m) (Destination m),
                                        Log_not_a_device (Source m)]) ms))"
  using assms by (induction ms) (simp_all add: mount_skip)

text \<open>
  Claim C6 does not hold of the code. The guard is \<^verbatim>\<open>strings.HasPrefix(mount.Source, "/dev")\<close>,
  a comparison of characters: the ordinary directory \<^verbatim>\<open>/devel\<close> does not lie under \<^verbatim>\<open>/dev\<close>,
  yet a mount of it is walked and its file is handed to the resolver.
\<close>

theorem devel_mount_reaches_the_resolver:
  "\<not> under_dev ''/devel''
   \<and> resolver_calls (snd (snd (processContainer
        (example_world V1 resolve_ok [\<lparr>Source = ''/devel'', Destination = ''/src''\<rparr>])
        ''4f0c3e2a1b9d'' empty_kstate))) = [''/devel/notes.txt'']"
  by code_simp

section \<open>Failures of cgroup path resolution\<close>

lemma mounts_skip_prefix:
  assumes "\<forall>m' \<in> set before. \<not> HasPrefix (Source m') ''/dev''"
  shows "processContainer_mounts w cid pid version (before @ ms) k =
           (case processContainer_mounts w cid pid version ms k of
              (a, k', ev) \<Rightarrow>
                (a, k',
                 concat (map (\<lambda>m'. [Log_requested_mount cid pid (Source m') (Destination m'),
                                      Log_not_a_device (Source m')]) before) @ ev))"
  using assms by (induction before) (auto simp: mount_skip split: prod.splits)

text \<open>
  Claim C4, as amended. When the cgroup path of a container cannot be resolved, the
  error is logged at the first mount whose source starts with \<^verbatim>\<open>/dev\<close> and the loop over
  the mounts ends there (\<^verbatim>\<open>break\<close>): the mounts after it are not looked at, no rule is
  applied, and \<^verbatim>\<open>processContainer\<close> returns normally, so the scan of the existing
  containers and the event loop go on with what follows.
\<close>

theorem path_resolution_failure_ends_the_mount_loop:
  assumes "ContainerInspect w cid = Inr info"
    and "GetDeviceCGroupVersion w ''/'' (Pid info) = (version, None)"
    and "fst (New w version) = Some api"
    and "GetDeviceCGroupMountPath api ''/'' (Pid info) = Inl err"
    and "Mounts info = before @ m # after"
    and "\<forall>m' \<in> set before. \<not> HasPrefix (Source m') ''/dev''"
    and "HasPrefix (Source m) ''/dev''"
  shows "processContainer w cid k =
           (None, k,
            [Call_ContainerInspect cid, Call_GetDeviceCGroupVersion ''/'' (Pid info),
             Log_cgroup_version (Pid info) version, Log_checking_mounts (Pid info)]
            @ concat (map (\<lambda>m'. [Log_requested_mount cid (Pid info) (Source m') (Destination m'),
                                   Log_not_a_device (Source m')]) before)
            @ [Log_requested_mount cid (Pid info) (Source m) (Destination m), Call_New version,
               Call_GetDeviceCGroupMountPath ''/'' (Pid info), Log_err err])
       \<and> examined (snd (snd (processContainer w cid k))) = map Source before @ [Source m]
       \<and> (\<forall>c cs. ID c = cid \<and> 10 \<le> length cid \<longrightarrow>
            checkExistingContainers_loop w (c # cs) k =
              (case checkExistingContainers_loop w cs k of
                 (a, k', ev') \<Rightarrow>
                   (a, k', Log_checking_existing (take 10 cid) (Image c)
                            # snd (snd (processContainer w cid k)) @ ev')))
       \<and> (\<forall>rest. listenForMounts w (From_msgs cid # rest) k =
            (case listenForMounts w rest k of
               (a, k', ev') \<Rightarrow> (a, k', snd (snd (processContainer w cid k)) @ ev')))"
proof -
  let ?skipped = "concat (map (\<lambda>m'. [Log_requested_mount cid (Pid info) (Source m') (Destination m'),
                                   Log_not_a_device (Source m')]) before)"
  have loop: "processContainer_mounts w cid (Pid info) version (Mounts info) k =
          (None, k, ?skipped @ [Log_requested_mount cid (Pid info) (Source m) (Destination m),
               Call_New version, Call_GetDeviceCGroupMountPath ''/'' (Pid info), Log_err err])"
    unfolding assms(5) mounts_skip_prefix [OF assms(6)]
    by (simp add: mount_break [OF assms(7) assms(3) assms(4)])
  have run: "processContainer w cid k =
           (None, k,
            [Call_ContainerInspect cid, Call_GetDeviceCGroupVersion ''/'' (Pid info),
             Log_cgroup_version (Pid info) version, Log_checking_mounts (Pid info)]
            @ ?skipped
            @ [Log_requested_mount cid (Pid info) (Source m) (Destination m), Call_New version,
               Call_GetDeviceCGroupMountPath ''/'' (Pid info), Log_err err])"
    using assms(1) assms(2) loop by (simp add: processContainer_def Let_def)
  have ex: "examined ?skipped = map Source before"
    by (induction before) simp_all
  have batch: "checkExistingContainers_loop w (c # cs) k =
              (case checkExistingContainers_loop w cs k of
                 (a, k', ev') \<Rightarrow>
                   (a, k', Log_checking_existing (take 10 cid) (Image c)
                            # snd (snd (processContainer w cid k)) @ ev'))"
    if "ID c = cid" "10 \<le> length cid" for c cs
    using that by (simp add: run split: prod.splits)
  have live: "listenForMounts w (From_msgs cid # rest) k =
            (case listenForMounts w rest k of
               (a, k', ev') \<Rightarrow> (a, k', snd (snd (processContainer w cid k)) @ ev'))" for rest
    by (simp add: run split: prod.splits)
  have "examined (snd (snd (processContainer w cid k))) = map Source before @ [Source m]"
    by (simp add: run ex)
  with run batch live show ?thesis by blast
qed

theorem path_resolution_failure_ends_the_mount_loop_witness:
  "snd (snd (processContainer
      (example_world V1 resolve_fails
        [\<lparr>Source = ''/data'', Destination = ''/data''\<rparr>,
         \<lparr>Source = ''/dev/null'', Destination = ''/dev/null''\<rparr>,
         \<lparr>Source = ''/dev/sda'', Destination = ''/dev/sda''\<rparr>])
      ''4f0c3e2a1b9d'' empty_kstate))
   = [Call_ContainerInspect ''4f0c3e2a1b9d'', Call_GetDeviceCGroupVersion ''/'' 4242,
      Log_cgroup_version 4242 V1, Log_checking_mounts 4242,
      Log_requested_mount ''4f0c3e2a1b9d'' 4242 ''/data'' ''/data'', Log_not_a_device ''/data'',
      Log_requested_mount ''4f0c3e2a1b9d'' 4242 ''/dev/null'' ''/dev/null'', Call_New V1,
      Call_GetDeviceCGroupMountPath ''/'' 4242, Log_err (Err ''cgroup directory not found'')]"
proof -
  let ?ms = "[\<lparr>Source = ''/data'', Destination = ''/data''\<rparr>,
         \<lparr>Source = ''/dev/null'', Destination = ''/dev/null''\<rparr>,
         \<lparr>Source = ''/dev/sda'', Destination = ''/dev/sda''\<rparr>]"
  let ?w = "example_world V1 resolve_fails ?ms"
  have 1: "ContainerInspect ?w ''4f0c3e2a1b9d'' = Inr \<lparr>Pid = 4242, Mounts = ?ms\<rparr>"
    by (simp add: example_world_def)
  have 2: "GetDeviceCGroupVersion ?w ''/'' (Pid \<lparr>Pid = 4242, Mounts = ?ms\<rparr>) = (V1, None)"
    by (simp add: example_world_def)
  have 3: "fst (New ?w V1) = Some (V1Backend resolve_fails accept_all)"
    by (simp add: example_world_def cgroup_New_def)
  have 4: "GetDeviceCGroupMountPath (V1Backend resolve_fails accept_all) ''/''
             (Pid \<lparr>Pid = 4242, Mounts = ?ms\<rparr>) = Inl (Err ''cgroup directory not found'')"
    by (simp add: V1Backend_def resolve_fails_def)
  have 5: "Mounts \<lparr>Pid = 4242, Mounts = ?ms\<rparr> =
             [\<lparr>Source = ''/data'', Destination = ''/data''\<rparr>]
             @ \<lparr>Source = ''/dev/null'', Destination = ''/dev/null''\<rparr>
             # [\<lparr>Source = ''/dev/sda'', Destination = ''/dev/sda''\<rparr>]"
    by simp
  have 6: "\<forall>m' \<in> set [\<lparr>Source = ''/data'', Destination = ''/data''\<rparr>].
             \<not> HasPrefix (Source m') ''/dev''"
    by (simp add: HasPrefix_def)
  have 7: "HasPrefix (Source \<lparr>Source = ''/dev/null'', Destination = ''/dev/null''\<rparr>) ''/dev''"
    by (simp add: HasPrefix_def)
  from path_resolution_failure_ends_the_mount_loop [OF 1 2 3 4 5 6 7, of empty_kstate]
  show ?thesis by simp
qed

text \<open>
  The claim as it was stated fails: with mounts \<^verbatim>\<open>/data\<close>, \<^verbatim>\<open>/dev/null\<close> and \<^verbatim>\<open>/dev/sda\<close> and
  a failing path resolution, the loop looks at the first two and never reaches
  \<^verbatim>\<open>/dev/sda\<close>.
\<close>

theorem path_resolution_failure_counterexample:
  "examined (snd (snd (processContainer
      (example_world V1 resolve_fails
        [\<lparr>Source = ''/data'', Destination = ''/data''\<rparr>,
         \<lparr>Source = ''/dev/null'', Destination = ''/dev/null''\<rparr>,
         \<lparr>Source = ''/dev/sda'', Destination = ''/dev/sda''\<rparr>])
      ''4f0c3e2a1b9d'' empty_kstate))) = [''/data'', ''/dev/null'']
   \<and> ''/dev/sda'' \<notin> set (examined (snd (snd (processContainer
      (example_world V1 resolve_fails
        [\<lparr>Source = ''/data'', Destination = ''/data''\<rparr>,
         \<lparr>Source = ''/dev/null'', Destination = ''/dev/null''\<rparr>,
         \<lparr>Source = ''/dev/sda'', Destination = ''/dev/sda''\<rparr>])
      ''4f0c3e2a1b9d'' empty_kstate))))"
  by code_simp

section \<open>Failures of the container runtime\<close>

text \<open>
  Claim C7, as amended. For a live start event a failed inspection panics, and an error
  on the event stream goes to \<^verbatim>\<open>log.Fatal\<close>: either ends the process with the deliveries
  after it unread. The initial scan ends the process in the same way when listing or
  inspecting fails.
\<close>

theorem live_event_failures_terminate_the_daemon:
  "(ContainerInspect w cid = Inl err \<longrightarrow>
      listenForMounts w (From_msgs cid # rest) k =
        (Some (Panic err), k, [Call_ContainerInspect cid]))
   \<and> listenForMounts w (From_errs err # rest) k = (Some (LogFatal err), k, [Log_err err])
   \<and> (ContainerList w = Inl err \<longrightarrow>
        checkExistingContainers w k = (Some (Panic err), k, [Call_ContainerList]))
   \<and> (ContainerInspect w (ID c) = Inl err \<and> 10 \<le> length (ID c) \<longrightarrow>
        checkExistingContainers_loop w (c # cs) k =
          (Some (Panic err), k,
           [Log_checking_existing (take 10 (ID c)) (Image c), Call_ContainerInspect (ID c)]))"
  by (simp add: processContainer_def checkExistingContainers_def)

theorem live_event_failures_terminate_the_daemon_witness:
  "listenForMounts (example_world V2 resolve_ok [])
     [From_msgs ''unknown'', From_msgs ''4f0c3e2a1b9d''] empty_kstate
   = (Some (Panic (Err ''No such container'')), empty_kstate, [Call_ContainerInspect ''unknown''])"
proof -
  have "ContainerInspect (example_world V2 resolve_ok []) ''unknown''
          = Inl (Err ''No such container'')"
    by (simp add: example_world_def)
  with live_event_failures_terminate_the_daemon
    [of "example_world V2 resolve_ok []" "''unknown''" "Err ''No such container''"
      "[From_msgs ''4f0c3e2a1b9d'']" empty_kstate]
  show ?thesis by simp
qed

text \<open>
  The claim as it was stated fails: a start event for a container that cannot be
  inspected stops the daemon before the next event is read, and so does an error on
  the stream.
\<close>

theorem live_event_failure_counterexample:
  "fst (listenForMounts (example_world V2 resolve_ok [])
          [From_msgs ''unknown'', From_msgs ''4f0c3e2a1b9d''] empty_kstate)
     = Some (Panic (Err ''No such container''))
   \<and> snd (snd (listenForMounts (example_world V2 resolve_ok [])
          [From_msgs ''unknown'', From_msgs ''4f0c3e2a1b9d''] empty_kstate))
     = [Call_ContainerInspect ''unknown'']
   \<and> fst (listenForMounts (example_world V2 resolve_ok [])
          [From_errs (Err ''unexpected EOF''), From_msgs ''4f0c3e2a1b9d''] empty_kstate)
     = Some (LogFatal (Err ''unexpected EOF''))"
  by code_simp

section \<open>The error of backend construction\<close>

lemma mount_depends_on_backend_only:
  assumes "fs w1 = fs w2" and "fst (New w1 version) = fst (New w2 version)"
  shows "processContainer_mount w1 cid pid version m k
           = processContainer_mount w2 cid pid version m k"
  unfolding processContainer_mount_def assms ..

lemma mount_New_error:
  "processContainer_mount (w\<lparr>New := \<lambda>v. (fst (New w v), e v)\<rparr>) cid pid version m k
     = processContainer_mount w cid pid version m k"
  by (rule mount_depends_on_backend_only) simp_all

lemma mounts_New_error:
  "processContainer_mounts (w\<lparr>New := \<lambda>v. (fst (New w v), e v)\<rparr>) cid pid version ms k
     = processContainer_mounts w cid pid version ms k"
  by (induction ms arbitrary: k) (simp_all add: mount_New_error split: prod.splits control.splits)

lemma processContainer_depends_on_mounts_only:
  assumes "ContainerInspect w1 = ContainerInspect w2"
    and "GetDeviceCGroupVersion w1 = GetDeviceCGroupVersion w2"
    and "\<And>pid version ms. processContainer_mounts w1 cid pid version ms k
           = processContainer_mounts w2 cid pid version ms k"
  shows "processContainer w1 cid k = processContainer w2 cid k"
  unfolding processContainer_def assms ..

lemma processContainer_New_error:
  "processContainer (w\<lparr>New := \<lambda>v. (fst (New w v), e v)\<rparr>) cid k = processContainer w cid k"
  by (rule processContainer_depends_on_mounts_only) (simp_all add: mounts_New_error)

text \<open>
  Claim C10. The error returned by \<^verbatim>\<open>cgroup.New\<close> is never read: whatever error comes with
  the backend value, \<^verbatim>\<open>processContainer\<close> does the same. The backend value is used at once
  for every mount whose source starts with \<^verbatim>\<open>/dev\<close>: \<^verbatim>\<open>GetDeviceCGroupMountPath\<close> is called
  on it, which is a nil dereference when the value is nil.
\<close>

theorem New_error_is_discarded:
  "processContainer (w\<lparr>New := \<lambda>v. (fst (New w v), err1 v)\<rparr>) cid k
     = processContainer (w\<lparr>New := \<lambda>v. (fst (New w v), err2 v)\<rparr>) cid k
   \<and> (HasPrefix (Source m) ''/dev'' \<longrightarrow>
        (case fst (New w version) of
           None \<Rightarrow> fst (processContainer_mount w cid pid version m k) = Abort NilInterface
         | Some api \<Rightarrow>
             Call_GetDeviceCGroupMountPath ''/'' pid
               \<in> set (snd (snd (processContainer_mount w cid pid version m k)))))"
proof -
  have "HasPrefix (Source m) ''/dev'' \<Longrightarrow> fst (New w version) = Some api \<Longrightarrow>
          Call_GetDeviceCGroupMountPath ''/'' pid
            \<in> set (snd (snd (processContainer_mount w cid pid version m k)))" for api
    by (cases rule: mount_cases [where m = m and w = w and version = version and pid = pid])
      (auto simp: mount_break mount_stat_fails mount_single mount_walk split: prod.splits)
  then show ?thesis
    by (auto simp: processContainer_New_error mount_nil split: option.splits)
qed

theorem New_error_is_discarded_witness:
  "processContainer
     ((example_world V2 resolve_ok [\<lparr>Source = ''/dev/null'', Destination = ''/dev/null''\<rparr>])
        \<lparr>New := \<lambda>v. (fst (New (example_world V2 resolve_ok
                         [\<lparr>Source = ''/dev/null'', Destination = ''/dev/null''\<rparr>]) v), None)\<rparr>)
     ''4f0c3e2a1b9d'' empty_kstate
   = processContainer
     ((example_world V2 resolve_ok [\<lparr>Source = ''/dev/null'', Destination = ''/dev/null''\<rparr>])
        \<lparr>New := \<lambda>v. (fst (New (example_world V2 resolve_ok
                         [\<lparr>Source = ''/dev/null'', Destination = ''/dev/null''\<rparr>]) v),
                       Some (Err ''unsupported cgroup version''))\<rparr>)
     ''4f0c3e2a1b9d'' empty_kstate
   \<and> Call_GetDeviceCGroupMountPath ''/'' 4242
       \<in> set (snd (snd (processContainer_mount
            (example_world V2 resolve_ok [\<lparr>Source = ''/dev/null'', Destination = ''/dev/null''\<rparr>])
            ''4f0c3e2a1b9d'' 4242 V2 \<lparr>Source = ''/dev/null'', Destination = ''/dev/null''\<rparr>
            empty_kstate)))
   \<and> fst (processContainer_mount
            ((example_world V2 resolve_ok [])
               \<lparr>New := \<lambda>v. (None, Some (Err ''unsupported cgroup version''))\<rparr>)
            ''4f0c3e2a1b9d'' 4242 V2 \<lparr>Source = ''/dev/null'', Destination = ''/dev/null''\<rparr>
            empty_kstate) = Abort NilInterface"
proof -
  let ?w = "example_world V2 resolve_ok [\<lparr>Source = ''/dev/null'', Destination = ''/dev/null''\<rparr>]"
  let ?nil = "(example_world V2 resolve_ok [])
                \<lparr>New := \<lambda>v. (None, Some (Err ''unsupported cgroup version''))\<rparr>"
  have 1: "HasPrefix (Source \<lparr>Source = ''/dev/null'', Destination = ''/dev/null''\<rparr>) ''/dev''"
    by (simp add: HasPrefix_def)
  have 2: "fst (New ?w V2) = Some (V2Backend resolve_ok accept_all)"
    by (simp add: example_world_def cgroup_New_def)
  have 3: "fst (New ?nil V2) = None"
    by simp
  from New_error_is_discarded
    [where w = ?w and ?err1.0 = "\<lambda>v. None"
       and ?err2.0 = "\<lambda>v. Some (Err ''unsupported cgroup version'')"
       and cid = "''4f0c3e2a1b9d''" and k = empty_kstate
       and m = "\<lparr>Source = ''/dev/null'', Destination = ''/dev/null''\<rparr>"
       and version = V2 and pid = 4242]
    New_error_is_discarded
    [where w = ?nil and cid = "''4f0c3e2a1b9d''" and k = empty_kstate
       and m = "\<lparr>Source = ''/dev/null'', Destination = ''/dev/null''\<rparr>"
       and version = V2 and pid = 4242]
    1 2 3
  show ?thesis by simp
qed

section \<open>The state after a run\<close>

lemma backend_calls_append [simp]: "backend_calls (a @ b) = backend_calls a @ backend_calls b"
  by (simp add: backend_calls_def)

lemma backend_calls_simps [simp]:
  "backend_calls [] = []"
  "backend_calls (e # ev) =
     (case e of Call_AddDeviceRules p rules \<Rightarrow> [(p, rules)] | _ \<Rightarrow> []) @ backend_calls ev"
  by (simp_all add: backend_calls_def)

lemma run_calls_simps [simp]:
  "run_calls api [] k = k"
  "run_calls api ((p, rules) # cs) k = run_calls api cs (snd (AddDeviceRules api p rules k))"
  "run_calls api (cs @ cs') k = run_calls api cs' (run_calls api cs k)"
  by (simp_all add: run_calls_def)

text \<open>The state after a run is the state before it with the recorded calls applied.\<close>

lemma getDeviceInfo_backend_calls [simp]: "backend_calls (snd (getDeviceInfo fsys mp)) = []"
  by (simp add: getDeviceInfo_def Let_def split: sum.splits option.splits)

lemma applyDeviceRules_eq:
  "applyDeviceRules fsys api mp cg pid k =
     (case getDeviceInfo fsys mp of
        ((ty, major, minor, err), ev) \<Rightarrow>
          (case err of
             Some e \<Rightarrow> (Some e, k, ev @ [Log_err e])
           | None \<Rightarrow>
               (fst (AddDeviceRules api cg
                       [\<lparr>Access = ''rwm'', Major = Some major, Minor = Some minor,
                          Type = ty, Allow = True\<rparr>] k),
                snd (AddDeviceRules api cg
                       [\<lparr>Access = ''rwm'', Major = Some major, Minor = Some minor,
                          Type = ty, Allow = True\<rparr>] k),
                ev @ [Log_adding_rule pid cg,
                      Call_AddDeviceRules cg
                        [\<lparr>Access = ''rwm'', Major = Some major, Minor = Some minor,
                           Type = ty, Allow = True\<rparr>]]
                @ (case fst (AddDeviceRules api cg
                       [\<lparr>Access = ''rwm'', Major = Some major, Minor = Some minor,
                          Type = ty, Allow = True\<rparr>] k) of
                     Some e \<Rightarrow> [Log_err e] | None \<Rightarrow> []))))"
  by (auto simp: applyDeviceRules_def Let_def split: prod.splits option.splits)

lemma applyDeviceRules_state:
  "fst (snd (applyDeviceRules fsys api mp cg pid k)) =
     run_calls api (backend_calls (snd (snd (applyDeviceRules fsys api mp cg pid k)))) k"
proof -
  obtain ty major minor err ev where g: "getDeviceInfo fsys mp = ((ty, major, minor, err), ev)"
    by (metis prod.exhaust)
  have b: "backend_calls ev = []" using getDeviceInfo_backend_calls [of fsys mp] g by simp
  show ?thesis
    by (cases err) (simp_all add: applyDeviceRules_eq g b split: option.splits)
qed

lemma applyDeviceRules_uniform:
  assumes "state_independent api"
  shows "fst (applyDeviceRules fsys api mp cg pid k2) = fst (applyDeviceRules fsys api mp cg pid k)
       \<and> snd (snd (applyDeviceRules fsys api mp cg pid k2))
           = snd (snd (applyDeviceRules fsys api mp cg pid k))"
proof -
  obtain ty major minor err ev where g: "getDeviceInfo fsys mp = ((ty, major, minor, err), ev)"
    by (metis prod.exhaust)
  have i: "fst (AddDeviceRules api p rules k2) = fst (AddDeviceRules api p rules k)" for p rules
    using assms unfolding state_independent_def by blast
  show ?thesis
    by (cases err) (simp_all add: applyDeviceRules_eq g i)
qed

lemma walkFn_file:
  "walkFn fsys api cg pid path (Some \<lparr>IsDir = False\<rparr>) None (k, tr) =
     (Inr None, fst (snd (applyDeviceRules fsys api path cg pid k)),
      tr @ snd (snd (applyDeviceRules fsys api path cg pid k))
         @ (case fst (applyDeviceRules fsys api path cg pid k) of
              Some e \<Rightarrow> [Log_err e] | None \<Rightarrow> []))"
  by (auto simp: walkFn_def split: prod.splits option.splits)

lemma walk_state:
  "fst (snd (walk (walkFn fsys api cg pid) path t (k, []))) =
     run_calls api (backend_calls (snd (snd (walk (walkFn fsys api cg pid) path t (k, []))))) k"
  and walk_names_state:
  "fst (snd (walk_names (walkFn fsys api cg pid) path es (k, []))) =
     run_calls api
       (backend_calls (snd (snd (walk_names (walkFn fsys api cg pid) path es (k, []))))) k"
proof (induction t and es arbitrary: path k and path k rule: ftree_list_induct)
  case File
  show ?case
    using applyDeviceRules_state [of fsys api path cg pid k]
    by (simp add: walkFn_file split: option.splits)
next
  case (Directory es)
  show ?case using Directory [of path k] by (simp add: walkFn_def)
next
  case (Unreadable e)
  show ?case by (simp add: walkFn_def)
next
  case (NoStat e)
  show ?case by (simp add: walkFn_def)
next
  case Nil
  show ?case by simp
next
  case (Cons n t es)
  obtain r k1 ev1 where
    w0: "walk (walkFn fsys api cg pid) (path_Join [path, n]) t (k, []) = (r, k1, ev1)"
    by (cases "walk (walkFn fsys api cg pid) (path_Join [path, n]) t (k, [])") auto
  obtain r2 k2 ev2 where
    w2: "walk_names (walkFn fsys api cg pid) path es (k1, []) = (r2, k2, ev2)"
    by (cases "walk_names (walkFn fsys api cg pid) path es (k1, [])") auto
  note s = walk_names_shift [of fsys api cg pid path es k1 ev1]
  have h1: "k1 = run_calls api (backend_calls ev1) k"
    using Cons.IH(1) [of "path_Join [path, n]" k] w0 by simp
  have h2: "k2 = run_calls api (backend_calls ev2) k1"
    using Cons.IH(2) [of path k1] w2 by simp
  show ?case
  proof (cases "r = Inr None")
    case True
    then have "walk_names (walkFn fsys api cg pid) path ((n, t) # es) (k, [])
                 = (r2, k2, ev1 @ ev2)"
      using w0 w2 s by simp
    then show ?thesis using h1 h2 by simp
  next
    case False
    then have "walk_names (walkFn fsys api cg pid) path ((n, t) # es) (k, []) = (r, k1, ev1)"
      using w0 by (auto split: sum.splits option.splits)
    then show ?thesis using h1 by simp
  qed
qed

lemma walk_uniform:
  assumes "state_independent api"
  shows "fst (walk (walkFn fsys api cg pid) path t (k2, []))
           = fst (walk (walkFn fsys api cg pid) path t (k, []))
       \<and> snd (snd (walk (walkFn fsys api cg pid) path t (k2, [])))
           = snd (snd (walk (walkFn fsys api cg pid) path t (k, [])))"
  and "fst (walk_names (walkFn fsys api cg pid) path es (k2, []))
           = fst (walk_names (walkFn fsys api cg pid) path es (k, []))
       \<and> snd (snd (walk_names (walkFn fsys api cg pid) path es (k2, [])))
           = snd (snd (walk_names (walkFn fsys api cg pid) path es (k, [])))"
proof (induction t and es arbitrary: path k k2 and path k k2 rule: ftree_list_induct)
  case File
  show ?case
    using applyDeviceRules_uniform [OF assms, of fsys path cg pid k2 k]
    by (simp add: walkFn_file)
next
  case (Directory es)
  show ?case using Directory [of path k2 k] by (simp add: walkFn_def)
next
  case (Unreadable e)
  show ?case by (simp add: walkFn_def)
next
  case (NoStat e)
  show ?case by (simp add: walkFn_def)
next
  case Nil
  show ?case by simp
next
  case (Cons n t es)
  obtain r k1 ev1 where
    w0: "walk (walkFn fsys api cg pid) (path_Join [path, n]) t (k, []) = (r, k1, ev1)"
    by (cases "walk (walkFn fsys api cg pid) (path_Join [path, n]) t (k, [])") auto
  obtain k1' where
    w0': "walk (walkFn fsys api cg pid) (path_Join [path, n]) t (k2, []) = (r, k1', ev1)"
    using Cons.IH(1) [of "path_Join [path, n]" k2 k] w0
    by (cases "walk (walkFn fsys api cg pid) (path_Join [path, n]) t (k2, [])") auto
  obtain r2 k3 ev2 where
    w2: "walk_names (walkFn fsys api cg pid) path es (k1, []) = (r2, k3, ev2)"
    by (cases "walk_names (walkFn fsys api cg pid) path es (k1, [])") auto
  obtain k3' where
    w2': "walk_names (walkFn fsys api cg pid) path es (k1', []) = (r2, k3', ev2)"
    using Cons.IH(2) [of path k1' k1] w2
    by (cases "walk_names (walkFn fsys api cg pid) path es (k1', [])") auto
  show ?case
  proof (cases "r = Inr None")
    case True
    then show ?thesis
      using w0 w0' w2 w2' walk_names_shift [of fsys api cg pid path es k1 ev1]
        walk_names_shift [of fsys api cg pid path es k1' ev1]
      by simp
  next
    case False
    then show ?thesis using w0 w0' by (auto split: sum.splits option.splits)
  qed
qed

text \<open>The same for the loop body, the loop and \<^verbatim>\<open>processContainer\<close>.\<close>

lemma mount_state:
  assumes "fst (New w version) = Some api"
  shows "fst (snd (processContainer_mount w cid pid version m k)) =
     run_calls api (backend_calls (snd (snd (processContainer_mount w cid pid version m k)))) k"
proof (cases rule: mount_cases [where m = m and w = w and version = version and pid = pid])
  case skip
  then show ?thesis by (simp add: mount_skip)
next
  case nil
  then show ?thesis by (simp add: mount_nil)
next
  case (break api' err)
  then show ?thesis by (simp add: mount_break)
next
  case (stat_fails api' cg0 sysfs err)
  then show ?thesis by (simp add: mount_stat_fails)
next
  case (single api' cg0 sysfs info)
  then have "api' = api" using assms by simp
  then show ?thesis
    using applyDeviceRules_state [of "fs w" api "Source m" "path_Join [rootPath, sysfs, cg0]" pid k]
    by (auto simp: mount_single [OF single] split: prod.splits option.splits)
next
  case (walk api' cg0 sysfs info)
  then have "api' = api" using assms by simp
  then show ?thesis
    using walk_state [where fsys = "fs w" and api = api and cg = "path_Join [rootPath, sysfs, cg0]"
        and pid = pid and path = "Source m" and t = "lstat_tree (fs w) (Source m)" and k = k]
    by (auto simp: mount_walk [OF walk] split: prod.splits option.splits sum.splits)
qed

lemma mount_uniform:
  assumes "fst (New w version) = Some api" and "state_independent api"
  shows "fst (processContainer_mount w cid pid version m k2)
           = fst (processContainer_mount w cid pid version m k)
       \<and> snd (snd (processContainer_mount w cid pid version m k2))
           = snd (snd (processContainer_mount w cid pid version m k))"
proof (cases rule: mount_cases [where m = m and w = w and version = version and pid = pid])
  case skip
  then show ?thesis by (simp add: mount_skip)
next
  case nil
  then show ?thesis by (simp add: mount_nil)
next
  case (break api' err)
  then show ?thesis by (simp add: mount_break)
next
  case (stat_fails api' cg0 sysfs err)
  then show ?thesis by (simp add: mount_stat_fails)
next
  case (single api' cg0 sysfs info)
  then have "api' = api" using assms by simp
  then show ?thesis
    using applyDeviceRules_uniform [OF assms(2), of "fs w" "Source m"
        "path_Join [rootPath, sysfs, cg0]" pid k2 k]
    by (auto simp: mount_single [OF single] split: prod.splits)
next
  case (walk api' cg0 sysfs info)
  then have "api' = api" using assms by simp
  then show ?thesis
    using walk_uniform(1) [OF assms(2), where fsys = "fs w" and cg = "path_Join [rootPath, sysfs, cg0]"
        and pid = pid and path = "Source m" and t = "lstat_tree (fs w) (Source m)"
        and ?k2.0 = k2 and k = k]
    by (auto simp: mount_walk [OF walk] split: prod.splits)
qed

lemma mounts_state:
  assumes "fst (New w version) = Some api"
  shows "fst (snd (processContainer_mounts w cid pid version ms k)) =
     run_calls api (backend_calls (snd (snd (processContainer_mounts w cid pid version ms k)))) k"
proof (induction ms arbitrary: k)
  case Nil
  show ?case by simp
next
  case (Cons m ms)
  obtain c k1 ev1 where b: "processContainer_mount w cid pid version m k = (c, k1, ev1)"
    by (cases "processContainer_mount w cid pid version m k") auto
  obtain a k2 ev2 where r: "processContainer_mounts w cid pid version ms k1 = (a, k2, ev2)"
    by (cases "processContainer_mounts w cid pid version ms k1") auto
  have h1: "k1 = run_calls api (backend_calls ev1) k"
    using mount_state [OF assms, of cid pid m k] b by simp
  have h2: "k2 = run_calls api (backend_calls ev2) k1"
    using Cons.IH [of k1] r by simp
  show ?case using b r h1 h2 by (cases c) simp_all
qed

lemma mounts_uniform:
  assumes "fst (New w version) = Some api" and "state_independent api"
  shows "fst (processContainer_mounts w cid pid version ms k2)
           = fst (processContainer_mounts w cid pid version ms k)
       \<and> snd (snd (processContainer_mounts w cid pid version ms k2))
           = snd (snd (processContainer_mounts w cid pid version ms k))"
proof (induction ms arbitrary: k k2)
  case Nil
  show ?case by simp
next
  case (Cons m ms)
  obtain c k1 ev1 where b: "processContainer_mount w cid pid version m k = (c, k1, ev1)"
    by (cases "processContainer_mount w cid pid version m k") auto
  obtain k1' where b': "processContainer_mount w cid pid version m k2 = (c, k1', ev1)"
    using mount_uniform [OF assms, of cid pid m k2 k] b
    by (cases "processContainer_mount w cid pid version m k2") auto
  obtain a k3 ev2 where r: "processContainer_mounts w cid pid version ms k1 = (a, k3, ev2)"
    by (cases "processContainer_mounts w cid pid version ms k1") auto
  obtain k3' where r': "processContainer_mounts w cid pid version ms k1' = (a, k3', ev2)"
    using Cons.IH [of k1' k1] r
    by (cases "processContainer_mounts w cid pid version ms k1'") auto
  show ?case using b b' r r' by (cases c) simp_all
qed

lemma processContainer_runs_calls:
  assumes "\<And>version. fst (New w version) = Some (B version)"
    and "\<And>version. state_independent (B version)"
  shows "\<exists>version. \<forall>k.
           fst (snd (processContainer w cid k)) =
             run_calls (B version) (backend_calls (snd (snd (processContainer w cid k)))) k
         \<and> fst (processContainer w cid k) = fst (processContainer w cid k0)
         \<and> snd (snd (processContainer w cid k)) = snd (snd (processContainer w cid k0))"
proof (cases "ContainerInspect w cid")
  case (Inl err)
  then show ?thesis by (simp add: processContainer_def)
next
  case (Inr info)
  obtain version verr where v: "GetDeviceCGroupVersion w ''/'' (Pid info) = (version, verr)"
    by (cases "GetDeviceCGroupVersion w ''/'' (Pid info)") auto
  show ?thesis
  proof (cases verr)
    case (Some err)
    then show ?thesis using Inr v by (simp add: processContainer_def Let_def)
  next
    case None
    have "fst (snd (processContainer w cid k)) =
             run_calls (B version) (backend_calls (snd (snd (processContainer w cid k)))) k
         \<and> fst (processContainer w cid k) = fst (processContainer w cid k0)
         \<and> snd (snd (processContainer w cid k)) = snd (snd (processContainer w cid k0))" for k
      using mounts_state [where w = w and version = version and api = "B version" and cid = cid
          and pid = "Pid info" and ms = "Mounts info" and k = k, OF assms(1)]
        mounts_uniform [where w = w and version = version and api = "B version" and cid = cid
          and pid = "Pid info" and ms = "Mounts info" and ?k2.0 = k and k = k0,
          OF assms(1) assms(2)]
        Inr v None
      by (auto simp: processContainer_def Let_def split: prod.splits)
    then show ?thesis by blast
  qed
qed

section \<open>The rules handed to the backend\<close>

text \<open>
  The rule lists handed to \<^verbatim>\<open>AddDeviceRules\<close> in a run are, in order, those of the paths
  handed to the resolver that resolved to a device.
\<close>

lemma applyDeviceRules_backend_calls:
  "backend_calls (snd (snd (applyDeviceRules fsys api mp cg pid k)))
     = map (Pair cg) (resolved_rules fsys mp)"
proof -
  obtain ty major minor err ev where g: "getDeviceInfo fsys mp = ((ty, major, minor, err), ev)"
    by (metis prod.exhaust)
  have b: "backend_calls ev = []" using getDeviceInfo_backend_calls [of fsys mp] g by simp
  show ?thesis
    by (cases err) (simp_all add: applyDeviceRules_eq resolved_rules_def g b split: option.splits)
qed

lemma applyDeviceRules_rules:
  "map snd (backend_calls (snd (snd (applyDeviceRules fsys api mp cg pid k))))
     = concat (map (resolved_rules fsys)
         (resolver_calls (snd (snd (applyDeviceRules fsys api mp cg pid k)))))"
  by (simp add: applyDeviceRules_backend_calls applyDeviceRules_calls comp_def)

lemma walk_rules:
  "map snd (backend_calls (snd (snd (walk (walkFn fsys api cg pid) path t (k, [])))))
     = concat (map (resolved_rules fsys)
         (resolver_calls (snd (snd (walk (walkFn fsys api cg pid) path t (k, []))))))"
  and walk_names_rules:
  "map snd (backend_calls (snd (snd (walk_names (walkFn fsys api cg pid) path es (k, [])))))
     = concat (map (resolved_rules fsys)
         (resolver_calls (snd (snd (walk_names (walkFn fsys api cg pid) path es (k, []))))))"
proof (induction t and es arbitrary: path k and path k rule: ftree_list_induct)
  case File
  show ?case
    using applyDeviceRules_rules [of fsys api path cg pid k]
    by (simp add: walkFn_file split: option.splits)
next
  case (Directory es)
  show ?case using Directory [of path k] by (simp add: walkFn_def)
next
  case (Unreadable e)
  show ?case by (simp add: walkFn_def)
next
  case (NoStat e)
  show ?case by (simp add: walkFn_def)
next
  case Nil
  show ?case by simp
next
  case (Cons n t es)
  obtain r k1 ev1 where
    w0: "walk (walkFn fsys api cg pid) (path_Join [path, n]) t (k, []) = (r, k1, ev1)"
    by (cases "walk (walkFn fsys api cg pid) (path_Join [path, n]) t (k, [])") auto
  obtain r2 k2 ev2 where
    w2: "walk_names (walkFn fsys api cg pid) path es (k1, []) = (r2, k2, ev2)"
    by (cases "walk_names (walkFn fsys api cg pid) path es (k1, [])") auto
  note s = walk_names_shift [of fsys api cg pid path es k1 ev1]
  have h1: "map snd (backend_calls ev1) = concat (map (resolved_rules fsys) (resolver_calls ev1))"
    using Cons.IH(1) [of "path_Join [path, n]" k] w0 by simp
  have h2: "map snd (backend_calls ev2) = concat (map (resolved_rules fsys) (resolver_calls ev2))"
    using Cons.IH(2) [of path k1] w2 by simp
  show ?case
  proof (cases "r = Inr None")
    case True
    then have "walk_names (walkFn fsys api cg pid) path ((n, t) # es) (k, [])
                 = (r2, k2, ev1 @ ev2)"
      using w0 w2 s by simp
    then show ?thesis using h1 h2 by simp
  next
    case False
    then have "walk_names (walkFn fsys api cg pid) path ((n, t) # es) (k, []) = (r, k1, ev1)"
      using w0 by (auto split: sum.splits option.splits)
    then show ?thesis using h1 by simp
  qed
qed

lemma mount_rules:
  "map snd (backend_calls (snd (snd (processContainer_mount w cid pid version m k))))
     = concat (map (resolved_rules (fs w))
         (resolver_calls (snd (snd (processContainer_mount w cid pid version m k)))))"
proof (cases rule: mount_cases [where m = m and w = w and version = version and pid = pid])
  case skip
  then show ?thesis by (simp add: mount_skip)
next
  case nil
  then show ?thesis by (simp add: mount_nil)
next
  case (break api err)
  then show ?thesis by (simp add: mount_break)
next
  case (stat_fails api cg0 sysfs err)
  then show ?thesis by (simp add: mount_stat_fails)
next
  case (single api cg0 sysfs info)
  show ?thesis
    using applyDeviceRules_rules [of "fs w" api "Source m" "path_Join [rootPath, sysfs, cg0]" pid k]
    by (auto simp: mount_single [OF single] split: prod.splits option.splits)
next
  case (walk api cg0 sysfs info)
  show ?thesis
    using walk_rules [where fsys = "fs w" and api = api and cg = "path_Join [rootPath, sysfs, cg0]"
        and pid = pid and path = "Source m" and t = "lstat_tree (fs w) (Source m)" and k = k]
    by (auto simp: mount_walk [OF walk] split: prod.splits option.splits sum.splits)
qed

lemma mounts_rules:
  "map snd (backend_calls (snd (snd (processContainer_mounts w cid pid version ms k))))
     = concat (map (resolved_rules (fs w))
         (resolver_calls (snd (snd (processContainer_mounts w cid pid version ms k)))))"
proof (induction ms arbitrary: k)
  case Nil
  show ?case by simp
next
  case (Cons m ms)
  obtain c k1 ev1 where b: "processContainer_mount w cid pid version m k = (c, k1, ev1)"
    by (cases "processContainer_mount w cid pid version m k") auto
  obtain a k2 ev2 where r: "processContainer_mounts w cid pid version ms k1 = (a, k2, ev2)"
    by (cases "processContainer_mounts w cid pid version ms k1") auto
  have h1: "map snd (backend_calls ev1) = concat (map (resolved_rules (fs w)) (resolver_calls ev1))"
    using mount_rules [of w cid pid version m k] b by simp
  have h2: "map snd (backend_calls ev2) = concat (map (resolved_rules (fs w)) (resolver_calls ev2))"
    using Cons.IH [of k1] r by simp
  show ?case using b r h1 h2 by (cases c) simp_all
qed

lemma processContainer_rules:
  "map snd (backend_calls (snd (snd (processContainer w cid k))))
     = concat (map (resolved_rules (fs w)) (resolver_calls (snd (snd (processContainer w cid k)))))"
proof (cases "ContainerInspect w cid")
  case (Inl err)
  then show ?thesis by (simp add: processContainer_def)
next
  case (Inr info)
  obtain version verr where v: "GetDeviceCGroupVersion w ''/'' (Pid info) = (version, verr)"
    by (cases "GetDeviceCGroupVersion w ''/'' (Pid info)") auto
  show ?thesis
  proof (cases verr)
    case (Some err)
    then show ?thesis using Inr v by (simp add: processContainer_def Let_def)
  next
    case None
    show ?thesis
      using mounts_rules [of w cid "Pid info" version "Mounts info" k] Inr v None
      by (auto simp: processContainer_def Let_def split: prod.splits)
  qed
qed

lemma checkExistingContainers_loop_rules:
  "map snd (backend_calls (snd (snd (checkExistingContainers_loop w cs k))))
     = concat (map (resolved_rules (fs w))
         (resolver_calls (snd (snd (checkExistingContainers_loop w cs k)))))"
proof (induction cs arbitrary: k)
  case Nil
  show ?case by simp
next
  case (Cons c cs)
  obtain a k1 ev1 where p: "processContainer w (ID c) k = (a, k1, ev1)"
    by (cases "processContainer w (ID c) k") auto
  obtain a2 k2 ev2 where r: "checkExistingContainers_loop w cs k1 = (a2, k2, ev2)"
    by (cases "checkExistingContainers_loop w cs k1") auto
  have h1: "map snd (backend_calls ev1) = concat (map (resolved_rules (fs w)) (resolver_calls ev1))"
    using processContainer_rules [of w "ID c" k] p by simp
  have h2: "map snd (backend_calls ev2) = concat (map (resolved_rules (fs w)) (resolver_calls ev2))"
    using Cons.IH [of k1] r by simp
  show ?case using p r h1 h2 by (cases a) simp_all
qed

lemma checkExistingContainers_rules:
  "map snd (backend_calls (snd (snd (checkExistingContainers w k))))
     = concat (map (resolved_rules (fs w))
         (resolver_calls (snd (snd (checkExistingContainers w k)))))"
proof (cases "ContainerList w")
  case (Inl err)
  then show ?thesis by (simp add: checkExistingContainers_def)
next
  case (Inr cs)
  then show ?thesis
    using checkExistingContainers_loop_rules [of w cs k]
    by (auto simp: checkExistingContainers_def split: prod.splits)
qed

lemma listenForMounts_rules:
  "map snd (backend_calls (snd (snd (listenForMounts w ds k))))
     = concat (map (resolved_rules (fs w)) (resolver_calls (snd (snd (listenForMounts w ds k)))))"
proof (induction ds arbitrary: k)
  case Nil
  show ?case by simp
next
  case (Cons d rest)
  show ?case
  proof (cases d)
    case (From_errs err)
    then show ?thesis by simp
  next
    case (From_msgs actor_id)
    obtain a k1 ev1 where p: "processContainer w actor_id k = (a, k1, ev1)"
      by (cases "processContainer w actor_id k") auto
    obtain a2 k2 ev2 where r: "listenForMounts w rest k1 = (a2, k2, ev2)"
      by (cases "listenForMounts w rest k1") auto
    have h1: "map snd (backend_calls ev1) = concat (map (resolved_rules (fs w)) (resolver_calls ev1))"
      using processContainer_rules [of w actor_id k] p by simp
    have h2: "map snd (backend_calls ev2) = concat (map (resolved_rules (fs w)) (resolver_calls ev2))"
      using Cons.IH [of k1] r by simp
    show ?thesis using From_msgs p r h1 h2 by (cases a) simp_all
  qed
qed


lemma resolved_rules_iff:
  "rules \<in> set (resolved_rules fsys mountPath) \<longleftrightarrow>
     (\<exists>deviceType major minor.
         fst (getDeviceInfo fsys mountPath) = (deviceType, major, minor, None)
       \<and> rules = [\<lparr>Access = ''rwm'', Major = Some major, Minor = Some minor,
                    Type = deviceType, Allow = True\<rparr>])"
  by (auto simp: resolved_rules_def split: prod.splits option.splits)

lemma resolved_rules_length: "length (resolved_rules fsys mountPath) \<le> 1"
  by (simp add: resolved_rules_def split: prod.splits option.splits)

lemma resolver_calls_mem: "p \<in> set (resolver_calls tr) \<longleftrightarrow> Call_unix_Stat p \<in> set tr"
  by (induction tr) (auto split: event.splits)

lemma backend_calls_mem:
  "(cg, rules) \<in> set (backend_calls tr) \<longleftrightarrow> Call_AddDeviceRules cg rules \<in> set tr"
  by (induction tr) (auto split: event.splits)

lemma rules_of_resolved_path:
  assumes "map snd (backend_calls tr) = concat (map (resolved_rules fsys) (resolver_calls tr))"
    and "Call_AddDeviceRules cg rules \<in> set tr"
  shows "\<exists>mountPath. Call_unix_Stat mountPath \<in> set tr
           \<and> rules \<in> set (resolved_rules fsys mountPath)"
proof -
  have "(cg, rules) \<in> set (backend_calls tr)" using assms(2) by (simp add: backend_calls_mem)
  then have "rules \<in> set (map snd (backend_calls tr))" by force
  then have "rules \<in> set (concat (map (resolved_rules fsys) (resolver_calls tr)))"
    using assms(1) by simp
  then obtain mountPath where "mountPath \<in> set (resolver_calls tr)"
    and "rules \<in> set (resolved_rules fsys mountPath)" by auto
  then show ?thesis by (auto simp: resolver_calls_mem)
qed

lemma processContainer_state:
  assumes "ContainerInspect w cid = Inr info"
    and "fst (New w (fst (GetDeviceCGroupVersion w ''/'' (Pid info)))) = Some api"
  shows "fst (snd (processContainer w cid k)) =
           run_calls api (backend_calls (snd (snd (processContainer w cid k)))) k"
proof -
  obtain version verr where v: "GetDeviceCGroupVersion w ''/'' (Pid info) = (version, verr)"
    by (cases "GetDeviceCGroupVersion w ''/'' (Pid info)") auto
  show ?thesis
  proof (cases verr)
    case (Some err)
    then show ?thesis using assms(1) v by (simp add: processContainer_def Let_def)
  next
    case None
    have n: "fst (New w version) = Some api" using assms(2) v by simp
    show ?thesis
      using mounts_state [where w = w and version = version and api = api and cid = cid
          and pid = "Pid info" and ms = "Mounts info" and k = k, OF n] assms(1) v None
      by (auto simp: processContainer_def Let_def split: prod.splits)
  qed
qed

text \<open>
  Claim C9. A run of \<^verbatim>\<open>applyDeviceRules\<close> on a path calls \<^verbatim>\<open>AddDeviceRules\<close> once when the path
  resolves to a device and not at all when it does not, and the state it leaves is what
  the backend made of that call. The list handed over holds exactly one rule: access
  \<^verbatim>\<open>rwm\<close>, allow, and type, major and minor as \<^verbatim>\<open>getDeviceInfo\<close> resolved them for that very
  path, both numbers present. In a whole run of \<^verbatim>\<open>processContainer\<close>, of the scan of the
  existing containers or of the event loop, the rule lists handed to the backend are, in
  order, exactly those of the paths given to the resolver that resolved; so every list
  handed over is the one rule of a path the run has resolved, which for
  \<^verbatim>\<open>processContainer\<close> is a mount source of the container or a non-directory below one, and
  the state after \<^verbatim>\<open>processContainer\<close> is the backend's result of the calls recorded. No deny
  rule and no smaller access set is ever handed over.
\<close>

theorem backend_receives_one_rwm_allow_rule:
  fixes w :: "'k world" and api :: "'k Interface"
  shows
  "backend_calls (snd (snd (applyDeviceRules fsys api mountPath cgroupPath pid k)))
     = map (Pair cgroupPath) (resolved_rules fsys mountPath)
   \<and> fst (snd (applyDeviceRules fsys api mountPath cgroupPath pid k))
     = run_calls api (map (Pair cgroupPath) (resolved_rules fsys mountPath)) k
   \<and> length (resolved_rules fsys mountPath) \<le> 1
   \<and> (rules \<in> set (resolved_rules fsys mountPath) \<longleftrightarrow>
        (\<exists>deviceType major minor.
            fst (getDeviceInfo fsys mountPath) = (deviceType, major, minor, None)
          \<and> rules = [\<lparr>Access = ''rwm'', Major = Some major, Minor = Some minor,
                       Type = deviceType, Allow = True\<rparr>]))
   \<and> (tr = snd (snd (processContainer w cid k1))
        \<or> tr = snd (snd (checkExistingContainers w k1))
        \<or> tr = snd (snd (listenForMounts w deliveries k1)) \<longrightarrow>
      map snd (backend_calls tr) = concat (map (resolved_rules (fs w)) (resolver_calls tr))
      \<and> (Call_AddDeviceRules cg handed \<in> set tr \<longrightarrow>
           (\<exists>p deviceType major minor.
               Call_unix_Stat p \<in> set tr
             \<and> fst (getDeviceInfo (fs w) p) = (deviceType, major, minor, None)
             \<and> handed = [\<lparr>Access = ''rwm'', Major = Some major, Minor = Some minor,
                           Type = deviceType, Allow = True\<rparr>])))
   \<and> (Call_unix_Stat p \<in> set (snd (snd (processContainer w cid k1))) \<longrightarrow>
        (\<exists>info m. ContainerInspect w cid = Inr info \<and> m \<in> set (Mounts info)
           \<and> p \<in> set (Source m # files (Source m) (lstat_tree (fs w) (Source m)))))
   \<and> (ContainerInspect w cid = Inr info
        \<and> fst (New w (fst (GetDeviceCGroupVersion w ''/'' (Pid info)))) = Some backend \<longrightarrow>
      fst (snd (processContainer w cid k1))
        = run_calls backend (backend_calls (snd (snd (processContainer w cid k1)))) k1)"
proof -
  have a: "backend_calls (snd (snd (applyDeviceRules fsys api mountPath cgroupPath pid k)))
     = map (Pair cgroupPath) (resolved_rules fsys mountPath)"
    by (rule applyDeviceRules_backend_calls)
  have b: "fst (snd (applyDeviceRules fsys api mountPath cgroupPath pid k))
     = run_calls api (map (Pair cgroupPath) (resolved_rules fsys mountPath)) k"
    using applyDeviceRules_state [of fsys api mountPath cgroupPath pid k] a by simp
  have c: "map snd (backend_calls tr) = concat (map (resolved_rules (fs w)) (resolver_calls tr))"
    if "tr = snd (snd (processContainer w cid k1))
        \<or> tr = snd (snd (checkExistingContainers w k1))
        \<or> tr = snd (snd (listenForMounts w deliveries k1))"
    using that processContainer_rules [of w cid k1] checkExistingContainers_rules [of w k1]
      listenForMounts_rules [of w deliveries k1]
    by auto
  have d: "\<exists>p deviceType major minor.
               Call_unix_Stat p \<in> set tr
             \<and> fst (getDeviceInfo (fs w) p) = (deviceType, major, minor, None)
             \<and> handed = [\<lparr>Access = ''rwm'', Major = Some major, Minor = Some minor,
                           Type = deviceType, Allow = True\<rparr>]"
    if "map snd (backend_calls tr) = concat (map (resolved_rules (fs w)) (resolver_calls tr))"
      and "Call_AddDeviceRules cg handed \<in> set tr"
    using rules_of_resolved_path [OF that] by (simp add: resolved_rules_iff)
  have e: "\<exists>info m. ContainerInspect w cid = Inr info \<and> m \<in> set (Mounts info)
           \<and> p \<in> set (Source m # files (Source m) (lstat_tree (fs w) (Source m)))"
    if "Call_unix_Stat p \<in> set (snd (snd (processContainer w cid k1)))"
    using unix_Stat_event [OF that] .
  have f: "fst (snd (processContainer w cid k1))
        = run_calls backend (backend_calls (snd (snd (processContainer w cid k1)))) k1"
    if "ContainerInspect w cid = Inr info
        \<and> fst (New w (fst (GetDeviceCGroupVersion w ''/'' (Pid info)))) = Some backend"
    using that processContainer_state [of w cid info backend k1] by simp
  show ?thesis
    using a b c d e f resolved_rules_length [of fsys mountPath]
      resolved_rules_iff [of rules fsys mountPath]
    by blast
qed


theorem backend_receives_one_rwm_allow_rule_witness:
  "Call_AddDeviceRules ''/host/sys/fs/cgroup/docker/4f0c''
     [\<lparr>Access = ''rwm'', Major = Some 1, Minor = Some 3, Type = ''c'', Allow = True\<rparr>]
     \<in> set (snd (snd (processContainer
           (example_world V2 resolve_ok [\<lparr>Source = ''/dev/null'', Destination = ''/dev/null''\<rparr>])
           ''4f0c3e2a1b9d'' empty_kstate)))
   \<and> Call_unix_Stat ''/dev/null''
     \<in> set (snd (snd (processContainer
           (example_world V2 resolve_ok [\<lparr>Source = ''/dev/null'', Destination = ''/dev/null''\<rparr>])
           ''4f0c3e2a1b9d'' empty_kstate)))
   \<and> ContainerInspect
        (example_world V2 resolve_ok [\<lparr>Source = ''/dev/null'', Destination = ''/dev/null''\<rparr>])
        ''4f0c3e2a1b9d''
      = Inr \<lparr>Pid = 4242, Mounts = [\<lparr>Source = ''/dev/null'', Destination = ''/dev/null''\<rparr>]\<rparr>
   \<and> fst (New (example_world V2 resolve_ok
                 [\<lparr>Source = ''/dev/null'', Destination = ''/dev/null''\<rparr>])
            (fst (GetDeviceCGroupVersion
                    (example_world V2 resolve_ok
                       [\<lparr>Source = ''/dev/null'', Destination = ''/dev/null''\<rparr>])
                    ''/'' 4242)))
      = Some (V2Backend resolve_ok accept_all)
   \<and> resolved_rules example_fs ''/dev/null''
      = [[\<lparr>Access = ''rwm'', Major = Some 1, Minor = Some 3, Type = ''c'', Allow = True\<rparr>]]
   \<and> resolved_rules example_fs ''/devel/notes.txt'' = []
   \<and> backend_calls (snd (snd (applyDeviceRules example_fs (V2Backend resolve_ok accept_all)
        ''/dev/null'' ''/host/sys/fs/cgroup/docker/4f0c'' 4242 empty_kstate)))
      = [(''/host/sys/fs/cgroup/docker/4f0c'',
          [\<lparr>Access = ''rwm'', Major = Some 1, Minor = Some 3, Type = ''c'', Allow = True\<rparr>])]
   \<and> fst (snd (applyDeviceRules example_fs (V2Backend resolve_ok accept_all)
        ''/dev/null'' ''/host/sys/fs/cgroup/docker/4f0c'' 4242 empty_kstate))
      = snd (AddDeviceRules (V2Backend resolve_ok accept_all) ''/host/sys/fs/cgroup/docker/4f0c''
          [\<lparr>Access = ''rwm'', Major = Some 1, Minor = Some 3, Type = ''c'', Allow = True\<rparr>]
          empty_kstate)
   \<and> map snd (backend_calls (snd (snd (processContainer
           (example_world V2 resolve_ok [\<lparr>Source = ''/dev/null'', Destination = ''/dev/null''\<rparr>])
           ''4f0c3e2a1b9d'' empty_kstate))))
      = [[\<lparr>Access = ''rwm'', Major = Some 1, Minor = Some 3, Type = ''c'', Allow = True\<rparr>]]
   \<and> (\<exists>p deviceType major minor.
         Call_unix_Stat p
           \<in> set (snd (snd (processContainer
                 (example_world V2 resolve_ok
                    [\<lparr>Source = ''/dev/null'', Destination = ''/dev/null''\<rparr>])
                 ''4f0c3e2a1b9d'' empty_kstate)))
       \<and> fst (getDeviceInfo example_fs p) = (deviceType, major, minor, None)
       \<and> [\<lparr>Access = ''rwm'', Major = Some 1, Minor = Some 3, Type = ''c'', Allow = True\<rparr>]
          = [\<lparr>Access = ''rwm'', Major = Some major, Minor = Some minor,
               Type = deviceType, Allow = True\<rparr>])
   \<and> fst (snd (processContainer
           (example_world V2 resolve_ok [\<lparr>Source = ''/dev/null'', Destination = ''/dev/null''\<rparr>])
           ''4f0c3e2a1b9d'' empty_kstate))
      = snd (AddDeviceRules (V2Backend resolve_ok accept_all) ''/host/sys/fs/cgroup/docker/4f0c''
          [\<lparr>Access = ''rwm'', Major = Some 1, Minor = Some 3, Type = ''c'', Allow = True\<rparr>]
          empty_kstate)"
proof -
  let ?w = "example_world V2 resolve_ok [\<lparr>Source = ''/dev/null'', Destination = ''/dev/null''\<rparr>]"
  let ?tr = "snd (snd (processContainer ?w ''4f0c3e2a1b9d'' empty_kstate))"
  let ?info = "\<lparr>Pid = 4242, Mounts = [\<lparr>Source = ''/dev/null'', Destination = ''/dev/null''\<rparr>]\<rparr>"
  let ?r = "\<lparr>Access = ''rwm'', Major = Some 1, Minor = Some 3, Type = ''c'', Allow = True\<rparr>"
  let ?cg = "''/host/sys/fs/cgroup/docker/4f0c''"
  let ?api = "V2Backend resolve_ok accept_all"
  have 1: "Call_AddDeviceRules ?cg [?r] \<in> set ?tr" by code_simp
  have 2: "Call_unix_Stat ''/dev/null'' \<in> set ?tr" by code_simp
  have 3: "ContainerInspect ?w ''4f0c3e2a1b9d'' = Inr ?info" by (simp add: example_world_def)
  have 4: "fst (New ?w (fst (GetDeviceCGroupVersion ?w ''/'' 4242))) = Some ?api"
    by (simp add: example_world_def cgroup_New_def)
  have 5: "resolved_rules example_fs ''/dev/null'' = [[?r]]" by code_simp
  have 6: "resolved_rules example_fs ''/devel/notes.txt'' = []" by code_simp
  have 7: "backend_calls ?tr = [(?cg, [?r])]" by code_simp
  have 8: "fs ?w = example_fs" by (simp add: example_world_def)
  note t = backend_receives_one_rwm_allow_rule [where fsys = example_fs and api = ?api
      and mountPath = "''/dev/null''" and cgroupPath = ?cg and pid = 4242 and k = empty_kstate
      and rules = "[?r]" and w = ?w and cid = "''4f0c3e2a1b9d''" and ?k1.0 = empty_kstate
      and tr = ?tr and deliveries = "[]" and cg = ?cg and handed = "[?r]"
      and p = "''/dev/null''" and info = ?info and backend = ?api]
  have a: "backend_calls (snd (snd (applyDeviceRules example_fs ?api ''/dev/null'' ?cg 4242
             empty_kstate))) = [(?cg, [?r])]"
    using t 5 by simp
  have b: "fst (snd (applyDeviceRules example_fs ?api ''/dev/null'' ?cg 4242 empty_kstate))
             = snd (AddDeviceRules ?api ?cg [?r] empty_kstate)"
    using t 5 by simp
  have c: "\<exists>p deviceType major minor.
         Call_unix_Stat p \<in> set ?tr
       \<and> fst (getDeviceInfo example_fs p) = (deviceType, major, minor, None)
       \<and> [?r] = [\<lparr>Access = ''rwm'', Major = Some major, Minor = Some minor,
               Type = deviceType, Allow = True\<rparr>]"
    using t 1 8 by simp
  have d: "fst (snd (processContainer ?w ''4f0c3e2a1b9d'' empty_kstate))
             = snd (AddDeviceRules ?api ?cg [?r] empty_kstate)"
    using t 3 4 7 by simp
  have e: "map snd (backend_calls ?tr) = [[?r]]" using 7 by simp
  show ?thesis using 1 2 3 4 5 6 a b c d e by blast
qed

section \<open>The backends of the specification\<close>

lemma V1_state_independent: "state_independent (V1Backend resolve reject)"
  by (simp add: state_independent_def V1Backend_def V1_AddDeviceRules_def split: option.splits)

lemma V2_state_independent: "state_independent (V2Backend resolve reject)"
  by (simp add: state_independent_def V2Backend_def V2_AddDeviceRules_def Let_def
      split: option.splits)

lemma V1_step:
  "snd (AddDeviceRules (V1Backend resolve reject) p rules k) =
     (if reject p rules = None
      then k\<lparr>v1_allow := (v1_allow k)(p := v1_allow k p \<union> set rules)\<rparr> else k)"
  by (simp add: V1Backend_def V1_AddDeviceRules_def split: option.splits)

lemma V2_step:
  "snd (AddDeviceRules (V2Backend resolve reject) p rules k) =
     (if reject p rules = None
      then k\<lparr>v2_applied := (v2_applied k)(p := v2_applied k p \<union> set rules),
              v2_program := (v2_program k)(p := v2_applied k p \<union> set rules)\<rparr> else k)"
  by (simp add: V2Backend_def V2_AddDeviceRules_def Let_def split: option.splits)

lemma V1_fixed:
  "snd (AddDeviceRules (V1Backend resolve reject) p rules k) = k \<longleftrightarrow>
     reject p rules \<noteq> None \<or> set rules \<subseteq> v1_allow k p"
proof (cases "reject p rules")
  case None
  have "k\<lparr>v1_allow := (v1_allow k)(p := v1_allow k p \<union> set rules)\<rparr> = k
          \<longleftrightarrow> set rules \<subseteq> v1_allow k p"
  proof
    assume "k\<lparr>v1_allow := (v1_allow k)(p := v1_allow k p \<union> set rules)\<rparr> = k"
    then have "v1_allow (k\<lparr>v1_allow := (v1_allow k)(p := v1_allow k p \<union> set rules)\<rparr>) p
                 = v1_allow k p"
      by simp
    then show "set rules \<subseteq> v1_allow k p" by auto
  next
    assume "set rules \<subseteq> v1_allow k p"
    then have "v1_allow k p \<union> set rules = v1_allow k p" by auto
    then show "k\<lparr>v1_allow := (v1_allow k)(p := v1_allow k p \<union> set rules)\<rparr> = k" by simp
  qed
  then show ?thesis using None by (simp add: V1_step)
next
  case (Some e)
  then show ?thesis by (simp add: V1_step)
qed

lemma V2_fixed:
  "snd (AddDeviceRules (V2Backend resolve reject) p rules k) = k \<longleftrightarrow>
     reject p rules \<noteq> None \<or> (set rules \<subseteq> v2_applied k p \<and> v2_program k p = v2_applied k p)"
proof (cases "reject p rules")
  case None
  let ?k' = "k\<lparr>v2_applied := (v2_applied k)(p := v2_applied k p \<union> set rules),
              v2_program := (v2_program k)(p := v2_applied k p \<union> set rules)\<rparr>"
  have "?k' = k \<longleftrightarrow> set rules \<subseteq> v2_applied k p \<and> v2_program k p = v2_applied k p"
  proof
    assume e: "?k' = k"
    have "v2_applied ?k' p = v2_applied k p" "v2_program ?k' p = v2_program k p"
      by (simp_all only: e)
    then show "set rules \<subseteq> v2_applied k p \<and> v2_program k p = v2_applied k p" by auto
  next
    assume a: "set rules \<subseteq> v2_applied k p \<and> v2_program k p = v2_applied k p"
    then have "v2_applied k p \<union> set rules = v2_applied k p" by auto
    moreover have "(v2_program k)(p := v2_applied k p) = v2_program k"
      using a by (metis fun_upd_triv)
    ultimately show "?k' = k" by simp
  qed
  then show ?thesis using None by (simp add: V2_step)
next
  case (Some e)
  then show ?thesis by (simp add: V2_step)
qed

lemma spec_backend_idempotent:
  assumes "api = V1Backend resolve reject \<or> api = V2Backend resolve reject"
  shows "snd (AddDeviceRules api p rules (snd (AddDeviceRules api p rules k)))
           = snd (AddDeviceRules api p rules k)"
  using assms by (auto simp: V1_fixed V2_fixed) (auto simp: V1_step V2_step)

lemma spec_backend_stable:
  assumes "api = V1Backend resolve reject \<or> api = V2Backend resolve reject"
    and "snd (AddDeviceRules api p rules k) = k"
  shows "snd (AddDeviceRules api p rules (snd (AddDeviceRules api q rules' k)))
           = snd (AddDeviceRules api q rules' k)"
  using assms by (auto simp: V1_fixed V2_fixed) (auto simp: V1_step V2_step)

lemma run_calls_fixed:
  assumes "api = V1Backend resolve reject \<or> api = V2Backend resolve reject"
    and "snd (AddDeviceRules api p rules k) = k"
  shows "snd (AddDeviceRules api p rules (run_calls api cs k)) = run_calls api cs k"
  using assms(2)
proof (induction cs arbitrary: k)
  case Nil
  then show ?case by simp
next
  case (Cons c cs)
  obtain q rules' where c: "c = (q, rules')" by (cases c)
  show ?case
    unfolding c using Cons.IH [OF spec_backend_stable [OF assms(1) Cons.prems]] by simp
qed

lemma run_calls_absorbed:
  assumes "api = V1Backend resolve reject \<or> api = V2Backend resolve reject"
    and "\<forall>(p, rules) \<in> set cs. snd (AddDeviceRules api p rules k) = k"
  shows "run_calls api cs k = k"
  using assms(2) by (induction cs) auto

lemma run_calls_absorbs_its_calls:
  assumes "api = V1Backend resolve reject \<or> api = V2Backend resolve reject"
  shows "\<forall>(p, rules) \<in> set cs.
           snd (AddDeviceRules api p rules (run_calls api cs k)) = run_calls api cs k"
proof (induction cs arbitrary: k)
  case Nil
  show ?case by simp
next
  case (Cons c cs)
  obtain q rules' where c: "c = (q, rules')" by (cases c)
  have "snd (AddDeviceRules api q rules' (run_calls api cs (snd (AddDeviceRules api q rules' k))))
          = run_calls api cs (snd (AddDeviceRules api q rules' k))"
    by (rule run_calls_fixed [OF assms spec_backend_idempotent [OF assms]])
  then show ?case unfolding c using Cons.IH [of "snd (AddDeviceRules api q rules' k)"] by simp
qed

lemma run_calls_twice:
  assumes "api = V1Backend resolve reject \<or> api = V2Backend resolve reject"
  shows "run_calls api cs (run_calls api cs k) = run_calls api cs k"
  by (rule run_calls_absorbed [OF assms run_calls_absorbs_its_calls [OF assms]])





lemma cgroup_New_backend:
  "fst (cgroup_New resolve1 resolve2 reject version) =
     Some (case version of V1 \<Rightarrow> V1Backend resolve1 reject | V2 \<Rightarrow> V2Backend resolve2 reject)"
  by (simp add: cgroup_New_def split: CgroupVersion.splits)

lemma cgroup_New_spec_backend:
  "\<exists>resolve. (case version of V1 \<Rightarrow> V1Backend resolve1 reject | V2 \<Rightarrow> V2Backend resolve2 reject)
       = V1Backend resolve reject
     \<or> (case version of V1 \<Rightarrow> V1Backend resolve1 reject | V2 \<Rightarrow> V2Backend resolve2 reject)
       = V2Backend resolve reject"
  by (cases version) auto

lemma spec_backend_state_independent:
  "api = V1Backend resolve reject \<or> api = V2Backend resolve reject \<Longrightarrow> state_independent api"
  using V1_state_independent V2_state_independent by auto

lemma processContainer_spec_backend:
  assumes "New w = cgroup_New resolve1 resolve2 reject"
  shows "\<exists>api resolve calls.
           (api = V1Backend resolve reject \<or> api = V2Backend resolve reject)
         \<and> (\<forall>k. fst (snd (processContainer w cid k)) = run_calls api calls k
                \<and> backend_calls (snd (snd (processContainer w cid k))) = calls
                \<and> fst (processContainer w cid k) = fst (processContainer w cid k0)
                \<and> snd (snd (processContainer w cid k)) = snd (snd (processContainer w cid k0)))"
proof -
  let ?B = "\<lambda>version. case version of V1 \<Rightarrow> V1Backend resolve1 reject
                                     | V2 \<Rightarrow> V2Backend resolve2 reject"
  have 1: "fst (New w version) = Some (?B version)" for version
    using assms by (simp add: cgroup_New_backend)
  have 2: "state_independent (?B version)" for version
    using V1_state_independent V2_state_independent by (cases version) auto
  from processContainer_runs_calls [of w ?B cid k0, OF 1 2] obtain version where
    v: "\<And>k. fst (snd (processContainer w cid k)) =
             run_calls (?B version) (backend_calls (snd (snd (processContainer w cid k)))) k
         \<and> fst (processContainer w cid k) = fst (processContainer w cid k0)
         \<and> snd (snd (processContainer w cid k)) = snd (snd (processContainer w cid k0))"
    by blast
  obtain resolve where
    r: "?B version = V1Backend resolve reject \<or> ?B version = V2Backend resolve reject"
    using cgroup_New_spec_backend [where version = version and ?resolve1.0 = resolve1
        and reject = reject and ?resolve2.0 = resolve2] by blast
  have "\<forall>k. fst (snd (processContainer w cid k))
               = run_calls (?B version) (backend_calls (snd (snd (processContainer w cid k0)))) k
         \<and> backend_calls (snd (snd (processContainer w cid k)))
               = backend_calls (snd (snd (processContainer w cid k0)))
         \<and> fst (processContainer w cid k) = fst (processContainer w cid k0)
         \<and> snd (snd (processContainer w cid k)) = snd (snd (processContainer w cid k0))"
    using v by metis
  with r show ?thesis by blast
qed

lemma applyDeviceRules_step:
  "fst (snd (applyDeviceRules fsys api mp cg pid k)) =
     (case fst (getDeviceInfo fsys mp) of
        (ty, major, minor, Some e) \<Rightarrow> k
      | (ty, major, minor, None) \<Rightarrow>
          snd (AddDeviceRules api cg
                 [\<lparr>Access = ''rwm'', Major = Some major, Minor = Some minor,
                    Type = ty, Allow = True\<rparr>] k))"
  by (auto simp: applyDeviceRules_eq split: prod.splits option.splits)

lemma funpow_idempotent:
  assumes "\<And>x. f (f x) = f x" and "1 \<le> N"
  shows "(f ^^ N) x = f x"
  using assms(2)
proof (induction N)
  case 0
  then show ?case by simp
next
  case (Suc n)
  show ?case
  proof (cases "n = 0")
    case True
    then show ?thesis by simp
  next
    case False
    then have "(f ^^ n) x = f x" using Suc.IH by simp
    then show ?thesis by (simp add: assms(1))
  qed
qed

section \<open>Allow-sets only grow\<close>




section \<open>Applying again changes nothing\<close>

text \<open>
  Claim C2. With the backends of the specification, applying a rule to a cgroup path
  \<open>N\<close> times, \<open>N\<close> at least one, leaves the same state as applying it once, so every target
  has the same effective allow-set; the same holds for \<open>N\<close> runs of \<^verbatim>\<open>applyDeviceRules\<close> on
  one path. Running \<^verbatim>\<open>processContainer\<close> again from the state a first run has left gives the
  same result and the same trace and leaves that state as it is.
\<close>

theorem reapplying_a_rule_changes_nothing:
  assumes "api = V1Backend resolve reject \<or> api = V2Backend resolve reject"
    and "1 \<le> N"
  shows "((\<lambda>k'. snd (AddDeviceRules api cgroupPath [r] k')) ^^ N) k
           = snd (AddDeviceRules api cgroupPath [r] k)
       \<and> allowed_rules (((\<lambda>k'. snd (AddDeviceRules api cgroupPath [r] k')) ^^ N) k) t
           = allowed_rules (snd (AddDeviceRules api cgroupPath [r] k)) t
       \<and> ((\<lambda>k'. fst (snd (applyDeviceRules fsys api mountPath cgroupPath pid k'))) ^^ N) k
           = fst (snd (applyDeviceRules fsys api mountPath cgroupPath pid k))
       \<and> (New w = cgroup_New resolve1 resolve2 reject \<longrightarrow>
            processContainer w cid (fst (snd (processContainer w cid k)))
              = processContainer w cid k)"
proof -
  have 1: "((\<lambda>k'. snd (AddDeviceRules api cgroupPath [r] k')) ^^ N) k
           = snd (AddDeviceRules api cgroupPath [r] k)"
    by (rule funpow_idempotent [OF spec_backend_idempotent [OF assms(1)] assms(2)])
  have idem: "fst (snd (applyDeviceRules fsys api mountPath cgroupPath pid
                 (fst (snd (applyDeviceRules fsys api mountPath cgroupPath pid x)))))
            = fst (snd (applyDeviceRules fsys api mountPath cgroupPath pid x))" for x
    using spec_backend_idempotent [OF assms(1)]
    by (simp add: applyDeviceRules_step split: prod.splits option.splits)
  have 3: "((\<lambda>k'. fst (snd (applyDeviceRules fsys api mountPath cgroupPath pid k'))) ^^ N) k
           = fst (snd (applyDeviceRules fsys api mountPath cgroupPath pid k))"
    by (rule funpow_idempotent [OF idem assms(2)])
  have 4: "processContainer w cid (fst (snd (processContainer w cid k)))
              = processContainer w cid k"
    if n: "New w = cgroup_New resolve1 resolve2 reject"
  proof -
    from processContainer_spec_backend [OF n, of cid k] obtain api' resolve' calls where
      sb: "api' = V1Backend resolve' reject \<or> api' = V2Backend resolve' reject"
      and st: "\<And>k'. fst (snd (processContainer w cid k')) = run_calls api' calls k'"
      and same: "\<And>k'. fst (processContainer w cid k') = fst (processContainer w cid k)"
        "\<And>k'. snd (snd (processContainer w cid k')) = snd (snd (processContainer w cid k))"
      by blast
    let ?k' = "fst (snd (processContainer w cid k))"
    have "fst (snd (processContainer w cid ?k')) = ?k'"
      using st [of ?k'] st [of k] run_calls_twice [OF sb, of calls k] by simp
    then show ?thesis
      using same(1) [of ?k'] same(2) [of ?k'] by (simp add: prod_eq_iff)
  qed
  from 1 3 4 show ?thesis by simp
qed

theorem reapplying_a_rule_changes_nothing_witness:
  "((\<lambda>k'. snd (AddDeviceRules (V2Backend resolve_ok accept_all)
                 ''/host/sys/fs/cgroup/docker/4f0c''
                 [\<lparr>Access = ''rwm'', Major = Some 226, Minor = Some 0, Type = ''c'',
                    Allow = True\<rparr>] k')) ^^ 3) empty_kstate
     = snd (AddDeviceRules (V2Backend resolve_ok accept_all)
              ''/host/sys/fs/cgroup/docker/4f0c''
              [\<lparr>Access = ''rwm'', Major = Some 226, Minor = Some 0, Type = ''c'',
                 Allow = True\<rparr>] empty_kstate)
   \<and> processContainer
       (example_world V2 resolve_ok [\<lparr>Source = ''/dev/dri'', Destination = ''/dev/dri''\<rparr>])
       ''4f0c3e2a1b9d''
       (fst (snd (processContainer
          (example_world V2 resolve_ok [\<lparr>Source = ''/dev/dri'', Destination = ''/dev/dri''\<rparr>])
          ''4f0c3e2a1b9d'' empty_kstate)))
     = processContainer
       (example_world V2 resolve_ok [\<lparr>Source = ''/dev/dri'', Destination = ''/dev/dri''\<rparr>])
       ''4f0c3e2a1b9d'' empty_kstate"
proof -
  let ?api = "V2Backend resolve_ok accept_all"
  let ?w = "example_world V2 resolve_ok [\<lparr>Source = ''/dev/dri'', Destination = ''/dev/dri''\<rparr>]"
  have b: "?api = V1Backend resolve_ok accept_all \<or> ?api = V2Backend resolve_ok accept_all"
    by simp
  have n: "(1::nat) \<le> 3" by simp
  have w: "New ?w = cgroup_New resolve_ok resolve_ok accept_all"
    by (simp add: example_world_def)
  from reapplying_a_rule_changes_nothing
    [OF b n, where w = ?w and ?resolve1.0 = resolve_ok and ?resolve2.0 = resolve_ok
       and cid = "''4f0c3e2a1b9d''" and k = empty_kstate
       and cgroupPath = "''/host/sys/fs/cgroup/docker/4f0c''"
       and r = "\<lparr>Access = ''rwm'', Major = Some 226, Minor = Some 0, Type = ''c'',
                 Allow = True\<rparr>"]
    w
  show ?thesis by blast
qed

end
